theory Spec2Isabelle
  imports Complex_Main
begin

section \<open>Server locations (utils/location.ts)\<close>

text \<open>
  The TypeScript type \<^verbatim>\<open>Location\<close> is a union of four string literals, so a location is
  a string at run time.  \<^verbatim>\<open>parseLocation(location: string = "us")\<close> takes an optional
  argument: \<open>None\<close> is the omitted (or \<^verbatim>\<open>undefined\<close>) argument, for which the default
  parameter value applies.
\<close>

definition parseLocation :: "string option \<Rightarrow> string" where
  "parseLocation arg =
     (let location = (case arg of None \<Rightarrow> ''us'' | Some l \<Rightarrow> l) in
      if location = ''eu-residency'' \<or> location = ''in-residency''
         \<or> location = ''us'' \<or> location = ''global''
      then location
      else ''us'')"

text \<open>The two lookup tables, as association lists in the order of the object literals.\<close>

definition originMap :: "(string \<times> string) list" where
  "originMap =
     [(''us'', ''wss://api.elevenlabs.io''),
      (''eu-residency'', ''wss://api.eu.residency.elevenlabs.io''),
      (''in-residency'', ''wss://api.in.residency.elevenlabs.io''),
      (''global'', ''wss://api.elevenlabs.io'')]"

definition livekitUrlMap :: "(string \<times> string) list" where
  "livekitUrlMap =
     [(''us'', ''wss://livekit.rtc.elevenlabs.io''),
      (''eu-residency'', ''wss://livekit.rtc.eu.residency.elevenlabs.io''),
      (''in-residency'', ''wss://livekit.rtc.in.residency.elevenlabs.io''),
      (''global'', ''wss://livekit.rtc.elevenlabs.io'')]"

text \<open>Indexing an object with a key it does not have gives \<^verbatim>\<open>undefined\<close>: \<open>None\<close>.\<close>

definition getOriginForLocation :: "string \<Rightarrow> string option" where
  "getOriginForLocation location = map_of originMap location"

definition getLivekitUrlForLocation :: "string \<Rightarrow> string option" where
  "getLivekitUrlForLocation location = map_of livekitUrlMap location"

definition locations :: "string list" where
  "locations = [''us'', ''global'', ''eu-residency'', ''in-residency'']"

section \<open>The conversation composable (index.ts, useConversation)\<close>

subsection \<open>Values of the client library\<close>

text \<open>
  A JavaScript \<^verbatim>\<open>Error\<close> has a message and an optional cause.  A promise is settled
  with a value or with the error it rejects with.  Of a \<^verbatim>\<open>Conversation\<close> of the client
  library the composable reads the identifier only.
\<close>

datatype exn = Error (message: string) (cause: "exn option")

datatype 'a settled = Fulfilled 'a | Rejected exn

datatype conversation = Conversation (getId: string)

text \<open>
  The part of \<^verbatim>\<open>HookOptions\<close> that \<^verbatim>\<open>startSession\<close> computes with, and the part of the
  options object it hands to \<^verbatim>\<open>Conversation.startSession\<close> that depends on it.  The
  callbacks and overrides are copied through by the source and are not modelled.
\<close>

record hook_options =
  serverLocation :: "string option"
  livekitUrl :: "string option"

record session_options =
  origin :: "string option"
  session_livekitUrl :: "string option"

text \<open>\<^verbatim>\<open>a || b\<close> on optional strings: \<^verbatim>\<open>undefined\<close> and the empty string are falsy.\<close>

definition or_else :: "string option \<Rightarrow> string option \<Rightarrow> string option" where
  "or_else a b = (case a of None \<Rightarrow> b | Some x \<Rightarrow> if x = [] then b else Some x)"

definition resolvedOptions :: "hook_options \<Rightarrow> hook_options option \<Rightarrow> session_options" where
  "resolvedOptions defaultOptions options =
     (let resolvedServerLocation =
            parseLocation (or_else (Option.bind options serverLocation)
                                   (serverLocation defaultOptions));
          origin = getOriginForLocation resolvedServerLocation;
          calculatedLivekitUrl = getLivekitUrlForLocation resolvedServerLocation
      in \<lparr>origin = origin,
          session_livekitUrl =
            or_else (or_else (Option.bind options livekitUrl) (livekitUrl defaultOptions))
                    calculatedLivekitUrl\<rparr>)"

text \<open>Every call the composable makes on the client library, in the order made.\<close>

datatype call =
    StartSession session_options
  | EndSession conversation
  | SetMicMuted conversation bool
  | SetVolume conversation real
  | SendFeedback conversation bool
  | SendContextualUpdate conversation string
  | SendUserMessage conversation string
  | SendUserActivity conversation
  | SendMCPToolApprovalResult conversation string bool

subsection \<open>Suspended continuations\<close>

text \<open>
  JavaScript runs one synchronous block at a time.  An \<^verbatim>\<open>await\<close> (or \<^verbatim>\<open>then\<close>) on a
  promise suspends the rest of the function; when the promise settles, the continuations
  waiting on it become microtasks, in the order they started to wait, and an
  \<^verbatim>\<open>await\<close> on a promise that is settled already queues its continuation at once.
  A continuation is named by the line it resumes at and by the number of the
  \<^verbatim>\<open>startSession\<close>/\<^verbatim>\<open>endSession\<close> call it belongs to.
\<close>

datatype start_cont =
    Primary nat       \<comment> \<open>startSession, after \<^verbatim>\<open>conversationRef.value = await lockRef.value\<close>\<close>
  | Join nat          \<comment> \<open>startSession, after \<^verbatim>\<open>const conversation = await lockRef.value\<close>\<close>
  | EndPending nat    \<comment> \<open>endSession, after \<^verbatim>\<open>const conv = await pendingConnection\<close>\<close>
  | UnmountThen       \<comment> \<open>onUnmounted, the callback of \<^verbatim>\<open>lockRef.value.then\<close>\<close>

datatype close_cont =
    Cancelled nat     \<comment> \<open>startSession, after \<^verbatim>\<open>await conversationRef.value.endSession()\<close>\<close>
  | EndClose nat      \<comment> \<open>endSession, after either \<^verbatim>\<open>await ....endSession()\<close>\<close>

datatype job =
    StartJob start_cont "conversation settled"
  | CloseJob close_cont "unit settled"

subsection \<open>State\<close>

text \<open>
  The three refs of the guard, the two controlled refs, the default options, and the
  world around them: the promises returned by \<^verbatim>\<open>Conversation.startSession\<close> (numbered
  from 0, \<open>started\<close> of them so far) and by \<^verbatim>\<open>endSession\<close> of a conversation (\<open>closing\<close>
  of them), who waits on them, the microtask queue, the calls made on the library, and
  the promises returned to the callers of \<^verbatim>\<open>startSession\<close> and \<^verbatim>\<open>endSession\<close>, by call
  number.  \<open>lockRef\<close> holds the number of a start promise.  The watchers on \<open>micMuted\<close>
  and \<open>volume\<close> are scheduled by Vue and are not part of this model; both refs keep the
  value they are created with.
\<close>

record state =
  conversationRef :: "conversation option"
  lockRef :: "nat option"
  shouldEndRef :: bool
  micMuted :: "bool option"
  volume :: "real option"
  defaultOptions :: hook_options
  started :: nat
  start_settled :: "nat \<rightharpoonup> conversation settled"
  closing :: nat
  close_settled :: "nat \<rightharpoonup> unit settled"
  start_waiters :: "(nat \<times> start_cont) list"
  close_waiters :: "(nat \<times> close_cont) list"
  jobs :: "job list"
  calls :: "call list"
  ncalls :: nat
  start_result :: "nat \<rightharpoonup> string settled"
  end_result :: "nat \<rightharpoonup> unit settled"

definition init :: "hook_options \<Rightarrow> bool option \<Rightarrow> real option \<Rightarrow> state" where
  "init props initialMicMuted initialVolume =
     \<lparr>conversationRef = None, lockRef = None, shouldEndRef = False,
      micMuted = initialMicMuted, volume = initialVolume, defaultOptions = props,
      started = 0, start_settled = Map.empty, closing = 0, close_settled = Map.empty,
      start_waiters = [], close_waiters = [], jobs = [], calls = [],
      ncalls = 0, start_result = Map.empty, end_result = Map.empty\<rparr>"

subsection \<open>Awaiting and calling the library\<close>

definition await_start :: "nat \<Rightarrow> start_cont \<Rightarrow> state \<Rightarrow> state" where
  "await_start p k s =
     (case start_settled s p of
        Some v \<Rightarrow> s\<lparr>jobs := jobs s @ [StartJob k v]\<rparr>
      | None \<Rightarrow> s\<lparr>start_waiters := start_waiters s @ [(p, k)]\<rparr>)"

definition await_close :: "nat \<Rightarrow> close_cont \<Rightarrow> state \<Rightarrow> state" where
  "await_close q k s =
     (case close_settled s q of
        Some v \<Rightarrow> s\<lparr>jobs := jobs s @ [CloseJob k v]\<rparr>
      | None \<Rightarrow> s\<lparr>close_waiters := close_waiters s @ [(q, k)]\<rparr>)"

text \<open>
  \<^verbatim>\<open>conv.endSession()\<close>: the call is made and a new promise, number \<open>closing s\<close>, comes
  back.
\<close>

definition invoke_endSession :: "conversation \<Rightarrow> state \<Rightarrow> state" where
  "invoke_endSession conv s =
     s\<lparr>closing := Suc (closing s), calls := calls s @ [EndSession conv]\<rparr>"

definition settle_startSession :: "nat \<Rightarrow> string settled \<Rightarrow> state \<Rightarrow> state" where
  "settle_startSession c v s = s\<lparr>start_result := (start_result s)(c \<mapsto> v)\<rparr>"

definition settle_endSession :: "nat \<Rightarrow> unit settled \<Rightarrow> state \<Rightarrow> state" where
  "settle_endSession c v s = s\<lparr>end_result := (end_result s)(c \<mapsto> v)\<rparr>"

subsection \<open>startSession\<close>

text \<open>
  The synchronous start of \<^verbatim>\<open>startSession(options)\<close>, up to its first \<^verbatim>\<open>await\<close> or its
  return.  \<open>isOpen\<close> is what \<^verbatim>\<open>isOpen()\<close> of the conversation in the slot answers, should
  the slot hold one: it is the library's answer, so it comes with the call.
\<close>

definition startSession :: "hook_options option \<Rightarrow> bool \<Rightarrow> state \<Rightarrow> state" where
  "startSession options isOpen s =
     (let c = ncalls s; s1 = s\<lparr>ncalls := Suc c\<rparr> in
      if conversationRef s1 \<noteq> None \<and> isOpen
      then settle_startSession c (Fulfilled (getId (the (conversationRef s1)))) s1
      else
        (case lockRef s1 of
           Some p \<Rightarrow> await_start p (Join c) s1
         | None \<Rightarrow>
             (let p = started s1;
                  s2 = s1\<lparr>shouldEndRef := False,
                          calls := calls s1 @ [StartSession (resolvedOptions (defaultOptions s1) options)],
                          started := Suc p,
                          lockRef := Some p\<rparr>
              in await_start p (Primary c) s2)))"

text \<open>The \<^verbatim>\<open>finally\<close> block of \<^verbatim>\<open>startSession\<close>, then the settling of the caller's promise.\<close>

definition finally_startSession :: "nat \<Rightarrow> string settled \<Rightarrow> state \<Rightarrow> state" where
  "finally_startSession c v s = settle_startSession c v (s\<lparr>lockRef := None\<rparr>)"

text \<open>
  After \<^verbatim>\<open>conversationRef.value = await lockRef.value\<close>: a rejection leaves the \<^verbatim>\<open>try\<close>
  block before the assignment.
\<close>

definition applyControlled :: "conversation \<Rightarrow> state \<Rightarrow> state" where
  "applyControlled conv s =
     (let s1 = (case micMuted s of
                  Some m \<Rightarrow> s\<lparr>calls := calls s @ [SetMicMuted conv m]\<rparr>
                | None \<Rightarrow> s)
      in (case volume s1 of
            Some v \<Rightarrow> s1\<lparr>calls := calls s1 @ [SetVolume conv v]\<rparr>
          | None \<Rightarrow> s1))"

definition resume_primary :: "nat \<Rightarrow> conversation settled \<Rightarrow> state \<Rightarrow> state" where
  "resume_primary c v s =
     (case v of
        Rejected e \<Rightarrow> finally_startSession c (Rejected e) s
      | Fulfilled conv \<Rightarrow>
          (let s1 = s\<lparr>conversationRef := Some conv\<rparr> in
           if shouldEndRef s1
           then await_close (closing s1) (Cancelled c) (invoke_endSession conv s1)
           else finally_startSession c (Fulfilled (getId conv)) (applyControlled conv s1)))"

text \<open>After \<^verbatim>\<open>await conversationRef.value.endSession()\<close> in the cancelled branch.\<close>

definition resume_cancelled :: "nat \<Rightarrow> unit settled \<Rightarrow> state \<Rightarrow> state" where
  "resume_cancelled c v s =
     (case v of
        Rejected e \<Rightarrow> finally_startSession c (Rejected e) s
      | Fulfilled u \<Rightarrow>
          finally_startSession c
            (Rejected (Error ''Session cancelled during connection'' None))
            (s\<lparr>conversationRef := None, lockRef := None\<rparr>))"

text \<open>After \<^verbatim>\<open>const conversation = await lockRef.value\<close>, outside the \<^verbatim>\<open>try\<close> block.\<close>

definition resume_join :: "nat \<Rightarrow> conversation settled \<Rightarrow> state \<Rightarrow> state" where
  "resume_join c v s =
     (case v of
        Rejected e \<Rightarrow> settle_startSession c (Rejected e) s
      | Fulfilled conversation \<Rightarrow> settle_startSession c (Fulfilled (getId conversation)) s)"

subsection \<open>endSession and onUnmounted\<close>

definition endSession :: "state \<Rightarrow> state" where
  "endSession s =
     (let c = ncalls s;
          s1 = s\<lparr>ncalls := Suc c, shouldEndRef := True\<rparr>;
          pendingConnection = lockRef s1;
          conversation = conversationRef s1;
          s2 = s1\<lparr>conversationRef := None\<rparr>
      in case pendingConnection of
           Some p \<Rightarrow> await_start p (EndPending c) s2
         | None \<Rightarrow>
             (case conversation of
                Some conv \<Rightarrow> await_close (closing s2) (EndClose c) (invoke_endSession conv s2)
              | None \<Rightarrow> s2\<lparr>jobs := jobs s2 @ [CloseJob (EndClose c) (Fulfilled ())]\<rparr>))"

definition resume_endPending :: "nat \<Rightarrow> conversation settled \<Rightarrow> state \<Rightarrow> state" where
  "resume_endPending c v s =
     (case v of
        Rejected e \<Rightarrow> settle_endSession c (Rejected e) s
      | Fulfilled conv \<Rightarrow> await_close (closing s) (EndClose c) (invoke_endSession conv s))"

definition resume_endClose :: "nat \<Rightarrow> unit settled \<Rightarrow> state \<Rightarrow> state" where
  "resume_endClose c v s = settle_endSession c v s"

text \<open>
  The \<^verbatim>\<open>onUnmounted\<close> hook.  Nothing awaits the promises of its \<^verbatim>\<open>endSession()\<close> calls,
  and a rejected start promise leaves its \<^verbatim>\<open>then\<close> callback unrun.
\<close>

definition unmounted :: "state \<Rightarrow> state" where
  "unmounted s =
     (let s1 = s\<lparr>shouldEndRef := True\<rparr> in
      case lockRef s1 of
        Some p \<Rightarrow> await_start p UnmountThen s1
      | None \<Rightarrow>
          (case conversationRef s1 of
             Some conv \<Rightarrow> invoke_endSession conv s1
           | None \<Rightarrow> s1))"

definition resume_unmountThen :: "conversation settled \<Rightarrow> state \<Rightarrow> state" where
  "resume_unmountThen v s =
     (case v of Rejected e \<Rightarrow> s | Fulfilled conv \<Rightarrow> invoke_endSession conv s)"

subsection \<open>Scheduling\<close>

fun resume :: "job \<Rightarrow> state \<Rightarrow> state" where
  "resume (StartJob (Primary c) v) s = resume_primary c v s"
| "resume (StartJob (Join c) v) s = resume_join c v s"
| "resume (StartJob (EndPending c) v) s = resume_endPending c v s"
| "resume (StartJob UnmountThen v) s = resume_unmountThen v s"
| "resume (CloseJob (Cancelled c) v) s = resume_cancelled c v s"
| "resume (CloseJob (EndClose c) v) s = resume_endClose c v s"

text \<open>
  The library settles a promise it has handed out and not settled yet; the waiting
  continuations join the microtask queue in the order they started to wait.
\<close>

definition settleStart :: "nat \<Rightarrow> conversation settled \<Rightarrow> state \<Rightarrow> state" where
  "settleStart p v s =
     (if p < started s \<and> start_settled s p = None
      then s\<lparr>start_settled := (start_settled s)(p \<mapsto> v),
             jobs := jobs s @ map (\<lambda>w. StartJob (snd w) v) (filter (\<lambda>w. fst w = p) (start_waiters s)),
             start_waiters := filter (\<lambda>w. fst w \<noteq> p) (start_waiters s)\<rparr>
      else s)"

definition settleClose :: "nat \<Rightarrow> unit settled \<Rightarrow> state \<Rightarrow> state" where
  "settleClose q v s =
     (if q < closing s \<and> close_settled s q = None
      then s\<lparr>close_settled := (close_settled s)(q \<mapsto> v),
             jobs := jobs s @ map (\<lambda>w. CloseJob (snd w) v) (filter (\<lambda>w. fst w = q) (close_waiters s)),
             close_waiters := filter (\<lambda>w. fst w \<noteq> q) (close_waiters s)\<rparr>
      else s)"

definition tick :: "state \<Rightarrow> state" where
  "tick s = (case jobs s of [] \<Rightarrow> s | j # js \<Rightarrow> resume j (s\<lparr>jobs := js\<rparr>))"

text \<open>
  What can happen to the composable: a call of one of its operations, the library settling
  a promise, or the JavaScript engine running the oldest microtask.
\<close>

datatype event =
    CallStartSession "hook_options option" bool
  | CallEndSession
  | Unmounted
  | SettleStart nat "conversation settled"
  | SettleClose nat "unit settled"
  | Tick

fun step :: "event \<Rightarrow> state \<Rightarrow> state" where
  "step (CallStartSession options isOpen) s = startSession options isOpen s"
| "step CallEndSession s = endSession s"
| "step Unmounted s = unmounted s"
| "step (SettleStart p v) s = settleStart p v s"
| "step (SettleClose q v) s = settleClose q v s"
| "step Tick s = tick s"

fun run :: "event list \<Rightarrow> state \<Rightarrow> state" where
  "run [] s = s"
| "run (e # es) s = run es (step e s)"

inductive reachable :: "state \<Rightarrow> bool" where
  reachable_init: "reachable (init props initialMicMuted initialVolume)"
| reachable_step: "reachable s \<Longrightarrow> reachable (step e s)"

subsection \<open>The pass-through operations\<close>

text \<open>
  Each of them is \<^verbatim>\<open>conversationRef.value?.operation(...)\<close>: with an empty slot the
  optional chain stops and nothing is called.  The result is a sum so that a thrown error
  would show as \<open>Inl\<close>; the getters take the library's answer as an argument.
\<close>

definition setVolume :: "real \<Rightarrow> state \<Rightarrow> exn + state" where
  "setVolume vol s =
     (case conversationRef s of
        Some conv \<Rightarrow> Inr (s\<lparr>calls := calls s @ [SetVolume conv vol]\<rparr>)
      | None \<Rightarrow> Inr s)"

definition sendFeedback :: "bool \<Rightarrow> state \<Rightarrow> exn + state" where
  "sendFeedback like s =
     (case conversationRef s of
        Some conv \<Rightarrow> Inr (s\<lparr>calls := calls s @ [SendFeedback conv like]\<rparr>)
      | None \<Rightarrow> Inr s)"

definition sendContextualUpdate :: "string \<Rightarrow> state \<Rightarrow> exn + state" where
  "sendContextualUpdate text s =
     (case conversationRef s of
        Some conv \<Rightarrow> Inr (s\<lparr>calls := calls s @ [SendContextualUpdate conv text]\<rparr>)
      | None \<Rightarrow> Inr s)"

definition sendUserMessage :: "string \<Rightarrow> state \<Rightarrow> exn + state" where
  "sendUserMessage text s =
     (case conversationRef s of
        Some conv \<Rightarrow> Inr (s\<lparr>calls := calls s @ [SendUserMessage conv text]\<rparr>)
      | None \<Rightarrow> Inr s)"

definition sendUserActivity :: "state \<Rightarrow> exn + state" where
  "sendUserActivity s =
     (case conversationRef s of
        Some conv \<Rightarrow> Inr (s\<lparr>calls := calls s @ [SendUserActivity conv]\<rparr>)
      | None \<Rightarrow> Inr s)"

definition sendMCPToolApprovalResult :: "string \<Rightarrow> bool \<Rightarrow> state \<Rightarrow> exn + state" where
  "sendMCPToolApprovalResult toolCallId isApproved s =
     (case conversationRef s of
        Some conv \<Rightarrow>
          Inr (s\<lparr>calls := calls s @ [SendMCPToolApprovalResult conv toolCallId isApproved]\<rparr>)
      | None \<Rightarrow> Inr s)"

definition getId_slot :: "state \<Rightarrow> exn + string option" where
  "getId_slot s = Inr (map_option getId (conversationRef s))"

definition getInputVolume :: "real \<Rightarrow> state \<Rightarrow> exn + real" where
  "getInputVolume answer s = (case conversationRef s of Some conv \<Rightarrow> Inr answer | None \<Rightarrow> Inr 0)"

definition getOutputVolume :: "real \<Rightarrow> state \<Rightarrow> exn + real" where
  "getOutputVolume answer s = (case conversationRef s of Some conv \<Rightarrow> Inr answer | None \<Rightarrow> Inr 0)"

definition getInputByteFrequencyData :: "nat list option \<Rightarrow> state \<Rightarrow> exn + nat list option" where
  "getInputByteFrequencyData answer s =
     (case conversationRef s of Some conv \<Rightarrow> Inr answer | None \<Rightarrow> Inr None)"

definition getOutputByteFrequencyData :: "nat list option \<Rightarrow> state \<Rightarrow> exn + nat list option" where
  "getOutputByteFrequencyData answer s =
     (case conversationRef s of Some conv \<Rightarrow> Inr answer | None \<Rightarrow> Inr None)"

section \<open>The Scribe composable (scribe.ts, useScribe)\<close>

text \<open>
  Of \<^verbatim>\<open>useScribe\<close>: the connection slot and the operations that send on it.  A connection
  is known by a number; \<open>sent\<close> records the calls made on connections.
\<close>

record audio_options =
  commit_option :: "bool option"
  sampleRate :: "nat option"
  previousText :: "string option"

datatype scribe_call =
    Send nat string "audio_options option"
  | Commit nat
  | Close nat

record scribe =
  connectionRef :: "nat option"
  sent :: "scribe_call list"

definition sendAudio :: "string \<Rightarrow> audio_options option \<Rightarrow> scribe \<Rightarrow> exn + scribe" where
  "sendAudio audioBase64 options sc =
     (case connectionRef sc of
        None \<Rightarrow> Inl (Error ''Not connected to Scribe'' None)
      | Some conn \<Rightarrow> Inr (sc\<lparr>sent := sent sc @ [Send conn audioBase64 options]\<rparr>))"

definition commit :: "scribe \<Rightarrow> exn + scribe" where
  "commit sc =
     (case connectionRef sc of
        None \<Rightarrow> Inl (Error ''Not connected to Scribe'' None)
      | Some conn \<Rightarrow> Inr (sc\<lparr>sent := sent sc @ [Commit conn]\<rparr>))"

definition disconnect :: "scribe \<Rightarrow> scribe" where
  "disconnect sc =
     (case connectionRef sc of
        None \<Rightarrow> sc\<lparr>connectionRef := None\<rparr>
      | Some conn \<Rightarrow> sc\<lparr>connectionRef := None, sent := sent sc @ [Close conn]\<rparr>)"

section \<open>Invariants and scenarios\<close>

text \<open>
  Promise numbers are handed out in order: nobody waits on, and the library has not
  settled, a promise that does not exist yet, and \<open>lockRef\<close> holds an existing one.
\<close>

definition fresh_ids :: "state \<Rightarrow> bool" where
  "fresh_ids s \<longleftrightarrow>
     (\<forall>w \<in> set (start_waiters s). fst w < started s)
     \<and> (\<forall>p. started s \<le> p \<longrightarrow> start_settled s p = None)
     \<and> (\<forall>w \<in> set (close_waiters s). fst w < closing s)
     \<and> (\<forall>q. closing s \<le> q \<longrightarrow> close_settled s q = None)
     \<and> (\<forall>p. lockRef s = Some p \<longrightarrow> p < started s)"

text \<open>
  The continuations of the \<^verbatim>\<open>startSession\<close> call that issued the start request: suspended
  on the start promise (\<open>primaries\<close>) or on the close of a cancelled conversation
  (\<open>cancels\<close>), waiting or queued.
\<close>

fun is_primary :: "start_cont \<Rightarrow> bool" where
  "is_primary (Primary c) = True"
| "is_primary k = False"

fun is_cancelled :: "close_cont \<Rightarrow> bool" where
  "is_cancelled (Cancelled c) = True"
| "is_cancelled k = False"

fun primary_job :: "job \<Rightarrow> bool" where
  "primary_job (StartJob k v) = is_primary k"
| "primary_job (CloseJob k v) = False"

fun cancelled_job :: "job \<Rightarrow> bool" where
  "cancelled_job (CloseJob k v) = is_cancelled k"
| "cancelled_job (StartJob k v) = False"

definition primaries :: "state \<Rightarrow> nat" where
  "primaries s = length (filter (\<lambda>w. is_primary (snd w)) (start_waiters s))
               + length (filter primary_job (jobs s))"

definition cancels :: "state \<Rightarrow> nat" where
  "cancels s = length (filter (\<lambda>w. is_cancelled (snd w)) (close_waiters s))
             + length (filter cancelled_job (jobs s))"

definition guard_inv :: "state \<Rightarrow> bool" where
  "guard_inv s \<longleftrightarrow>
     primaries s + cancels s = (if lockRef s = None then 0 else 1)
     \<and> (0 < cancels s \<longrightarrow>
          shouldEndRef s
          \<and> (\<forall>conv. conversationRef s = Some conv \<longrightarrow> EndSession conv \<in> set (calls s)))"

text \<open>No acquisition is in flight and no microtask is queued.\<close>

definition idle :: "state \<Rightarrow> bool" where
  "idle s \<longleftrightarrow> lockRef s = None \<and> jobs s = []"

text \<open>
  The scenario of the test "throws error when session is cancelled during connection",
  started in state \<open>s\<close>: \<^verbatim>\<open>startSession()\<close>, \<^verbatim>\<open>endSession()\<close>, the start promise resolves
  to \<open>conv\<close>, and the microtasks run; each \<^verbatim>\<open>endSession()\<close> of the conversation returns a
  promise that is resolved already, as the mock's does.
\<close>

definition cancel_during_connect ::
  "hook_options option \<Rightarrow> bool \<Rightarrow> conversation \<Rightarrow> state \<Rightarrow> event list" where
  "cancel_during_connect options isOpen conv s =
     [CallStartSession options isOpen, CallEndSession,
      SettleStart (started s) (Fulfilled conv),
      Tick, SettleClose (closing s) (Fulfilled ()),
      Tick, SettleClose (Suc (closing s)) (Fulfilled ()),
      Tick, Tick]"

text \<open>One acquisition alone: the call, the library settling the start promise, the continuation.\<close>

definition acquire :: "hook_options option \<Rightarrow> bool \<Rightarrow> conversation settled \<Rightarrow> state \<Rightarrow> event list" where
  "acquire options isOpen v s =
     [CallStartSession options isOpen, SettleStart (started s) v, Tick]"

text \<open>Two calls of \<^verbatim>\<open>startSession\<close> before the start promise resolves.\<close>

definition start_twice ::
  "hook_options option \<Rightarrow> bool \<Rightarrow> hook_options option \<Rightarrow> bool \<Rightarrow> conversation \<Rightarrow> state \<Rightarrow> event list" where
  "start_twice options isOpen options' isOpen' conv s =
     [CallStartSession options isOpen, CallStartSession options' isOpen',
      SettleStart (started s) (Fulfilled conv), Tick, Tick]"

text \<open>The calls that apply the controlled refs to a conversation just installed.\<close>

definition controlled_calls :: "conversation \<Rightarrow> state \<Rightarrow> call list" where
  "controlled_calls conv s =
     (case micMuted s of Some m \<Rightarrow> [SetMicMuted conv m] | None \<Rightarrow> [])
     @ (case volume s of Some v \<Rightarrow> [SetVolume conv v] | None \<Rightarrow> [])"

text \<open>
  The beginning of the cancellation scenario, up to and including the continuation of
  \<^verbatim>\<open>startSession\<close> that receives the conversation.
\<close>

definition cancel_window ::
  "hook_options option \<Rightarrow> bool \<Rightarrow> conversation \<Rightarrow> state \<Rightarrow> event list" where
  "cancel_window options isOpen conv s =
     [CallStartSession options isOpen, CallEndSession,
      SettleStart (started s) (Fulfilled conv), Tick]"

text \<open>
  The cancellation scenario with a second \<^verbatim>\<open>startSession()\<close> that joins the acquisition
  before \<^verbatim>\<open>endSession()\<close> is called.
\<close>

definition join_then_cancel ::
  "hook_options option \<Rightarrow> bool \<Rightarrow> hook_options option \<Rightarrow> bool \<Rightarrow> conversation \<Rightarrow> state \<Rightarrow> event list" where
  "join_then_cancel options isOpen options' isOpen' conv s =
     [CallStartSession options isOpen, CallStartSession options' isOpen', CallEndSession,
      SettleStart (started s) (Fulfilled conv),
      Tick, SettleClose (closing s) (Fulfilled ()),
      Tick,
      Tick, SettleClose (Suc (closing s)) (Fulfilled ()),
      Tick, Tick]"

text \<open>
  Which \<^verbatim>\<open>startSession\<close> call a continuation belongs to, and how many continuations of a
  call are suspended.  Every call has at most one, and none once its promise is settled.
\<close>

fun start_owner :: "start_cont \<Rightarrow> nat option" where
  "start_owner (Primary c) = Some c"
| "start_owner (Join c) = Some c"
| "start_owner k = None"

fun close_owner :: "close_cont \<Rightarrow> nat option" where
  "close_owner (Cancelled c) = Some c"
| "close_owner k = None"

fun job_owner :: "job \<Rightarrow> nat option" where
  "job_owner (StartJob k v) = start_owner k"
| "job_owner (CloseJob k v) = close_owner k"

definition continuations :: "nat \<Rightarrow> state \<Rightarrow> nat" where
  "continuations c s =
     length (filter (\<lambda>w. start_owner (snd w) = Some c) (start_waiters s))
     + length (filter (\<lambda>w. close_owner (snd w) = Some c) (close_waiters s))
     + length (filter (\<lambda>j. job_owner j = Some c) (jobs s))"

definition calls_inv :: "state \<Rightarrow> bool" where
  "calls_inv s \<longleftrightarrow>
     (\<forall>c. continuations c s \<le> 1
          \<and> (start_result s c \<noteq> None \<longrightarrow> continuations c s = 0)
          \<and> (ncalls s \<le> c \<longrightarrow> continuations c s = 0 \<and> start_result s c = None))"

text \<open>
  Call \<open>c\<close> issued a start request and is suspended on the start promise
  (\<open>awaiting_start\<close>), or is suspended on the close of a cancelled conversation
  (\<open>awaiting_close\<close>).
\<close>

fun job_start_cont :: "job \<Rightarrow> start_cont option" where
  "job_start_cont (StartJob k v) = Some k"
| "job_start_cont (CloseJob k v) = None"

fun job_close_cont :: "job \<Rightarrow> close_cont option" where
  "job_close_cont (CloseJob k v) = Some k"
| "job_close_cont (StartJob k v) = None"

definition awaiting_start :: "nat \<Rightarrow> state \<Rightarrow> bool" where
  "awaiting_start c s \<longleftrightarrow>
     Primary c \<in> snd ` set (start_waiters s)
     \<or> Some (Primary c) \<in> job_start_cont ` set (jobs s)"

definition awaiting_close :: "nat \<Rightarrow> state \<Rightarrow> bool" where
  "awaiting_close c s \<longleftrightarrow>
     Cancelled c \<in> snd ` set (close_waiters s)
     \<or> Some (Cancelled c) \<in> job_close_cont ` set (jobs s)"

text \<open>The library has rejected one of its promises with \<open>e\<close>.\<close>

definition library_rejected :: "exn \<Rightarrow> state \<Rightarrow> bool" where
  "library_rejected e s \<longleftrightarrow>
     (\<exists>p < started s. start_settled s p = Some (Rejected e))
     \<or> (\<exists>q < closing s. close_settled s q = Some (Rejected e))"

fun job_error :: "job \<Rightarrow> exn option" where
  "job_error (StartJob k (Rejected e)) = Some e"
| "job_error (CloseJob k (Rejected e)) = Some e"
| "job_error j = None"

definition job_values_inv :: "state \<Rightarrow> bool" where
  "job_values_inv s \<longleftrightarrow>
     (\<forall>j \<in> set (jobs s). \<forall>e. job_error j = Some e \<longrightarrow> library_rejected e s)"

text \<open>
  Call \<open>c\<close> is cancelled: it has not settled and will take the cancelled branch (it waits
  for the start promise with the flag set, or for the close of the conversation), or it
  is rejected, with the cancellation error or with an error the library rejected with.
\<close>

definition cancelled_call :: "nat \<Rightarrow> state \<Rightarrow> bool" where
  "cancelled_call c s \<longleftrightarrow>
     (case start_result s c of
        None \<Rightarrow> (awaiting_start c s \<and> shouldEndRef s) \<or> awaiting_close c s
      | Some (Fulfilled x) \<Rightarrow> False
      | Some (Rejected e) \<Rightarrow>
          e = Error ''Session cancelled during connection'' None \<or> library_rejected e s)"

text \<open>
  The cancellation scenario in which \<^verbatim>\<open>endSession()\<close> of the conversation, as called by
  the cancelled \<^verbatim>\<open>startSession\<close>, rejects with \<open>e\<close>.
\<close>

definition cancel_close_rejected ::
  "hook_options option \<Rightarrow> bool \<Rightarrow> conversation \<Rightarrow> exn \<Rightarrow> state \<Rightarrow> event list" where
  "cancel_close_rejected options isOpen conv e s =
     [CallStartSession options isOpen, CallEndSession,
      SettleStart (started s) (Fulfilled conv),
      Tick, SettleClose (closing s) (Rejected e),
      Tick, SettleClose (Suc (closing s)) (Fulfilled ()),
      Tick, Tick]"

text \<open>The composable of the tests: \<^verbatim>\<open>useConversation({ signedUrl: ... })\<close>.\<close>

definition useConversation_test :: state where
  "useConversation_test = init \<lparr>serverLocation = None, livekitUrl = None\<rparr> None None"

definition count_calls :: "call \<Rightarrow> call list \<Rightarrow> nat" where
  "count_calls x xs = length (filter (\<lambda>y. y = x) xs)"

fun is_StartSession :: "call \<Rightarrow> bool" where
  "is_StartSession (StartSession cfg) = True"
| "is_StartSession x = False"

section \<open>Properties of the location helpers\<close>

lemma parseLocation_cases:
  "parseLocation arg = ''us'' \<or> parseLocation arg = ''global''
   \<or> parseLocation arg = ''eu-residency'' \<or> parseLocation arg = ''in-residency''"
  by (simp add: parseLocation_def Let_def)

lemma parseLocation_in_locations: "parseLocation arg \<in> set locations"
  using parseLocation_cases [of arg] by (auto simp: locations_def)

lemma origin_defined: "l \<in> set locations \<Longrightarrow> getOriginForLocation l \<noteq> None"
  by (auto simp: locations_def getOriginForLocation_def originMap_def)

lemma livekit_defined: "l \<in> set locations \<Longrightarrow> getLivekitUrlForLocation l \<noteq> None"
  by (auto simp: locations_def getLivekitUrlForLocation_def livekitUrlMap_def)

text \<open>
  Claim C10.  \<open>parseLocation\<close> is total and always answers one of the four locations: a
  recognised input is returned unchanged, every other string and the omitted argument
  give \<open>''us''\<close>.  Hence both lookups that follow it find their key, and \<open>''global''\<close> and
  \<open>''us''\<close> have the same origin and the same LiveKit URL.
\<close>

theorem parseLocation_total_valid:
  "parseLocation None = ''us''
   \<and> parseLocation (Some l) = (if l \<in> set locations then l else ''us'')
   \<and> parseLocation arg \<in> set locations
   \<and> getOriginForLocation (parseLocation arg) \<noteq> None
   \<and> getLivekitUrlForLocation (parseLocation arg) \<noteq> None
   \<and> getOriginForLocation ''global'' = getOriginForLocation ''us''
   \<and> getLivekitUrlForLocation ''global'' = getLivekitUrlForLocation ''us''"
proof -
  have a: "parseLocation None = ''us''"
    by (simp add: parseLocation_def)
  have b: "parseLocation (Some l) = (if l \<in> set locations then l else ''us'')"
    by (auto simp: parseLocation_def locations_def)
  have c: "parseLocation arg \<in> set locations"
    by (rule parseLocation_in_locations)
  have d: "getOriginForLocation (parseLocation arg) \<noteq> None"
    by (rule origin_defined [OF c])
  have e: "getLivekitUrlForLocation (parseLocation arg) \<noteq> None"
    by (rule livekit_defined [OF c])
  have f: "getOriginForLocation ''global'' = getOriginForLocation ''us''"
    by (simp add: getOriginForLocation_def originMap_def)
  have g: "getLivekitUrlForLocation ''global'' = getLivekitUrlForLocation ''us''"
    by (simp add: getLivekitUrlForLocation_def livekitUrlMap_def)
  from a b c d e f g show ?thesis by blast
qed

theorem parseLocation_total_valid_witness:
  "parseLocation (Some ''eu-residency'') = ''eu-residency''
   \<and> parseLocation (Some ''mars'') = ''us''
   \<and> getOriginForLocation (parseLocation (Some ''mars'')) = Some ''wss://api.elevenlabs.io''"
  using parseLocation_total_valid [of "''eu-residency''" "Some ''mars''"]
    parseLocation_total_valid [of "''mars''" "Some ''mars''"]
  by (simp add: locations_def getOriginForLocation_def originMap_def)

section \<open>Invariants of the reachable states\<close>

lemmas op_defs = startSession_def endSession_def unmounted_def settleStart_def settleClose_def
  tick_def resume_primary_def resume_cancelled_def resume_join_def resume_endPending_def
  resume_endClose_def resume_unmountThen_def await_start_def await_close_def
  invoke_endSession_def settle_startSession_def settle_endSession_def finally_startSession_def
  applyControlled_def

lemma fresh_ids_init: "fresh_ids (init d m v)"
  by (simp add: fresh_ids_def init_def)

lemma fresh_ids_resume: "fresh_ids s \<Longrightarrow> fresh_ids (resume j s)"
  by (cases "(j, s)" rule: resume.cases)
     (auto simp: fresh_ids_def op_defs Let_def less_Suc_eq split: option.splits settled.splits)

lemma fresh_ids_jobs: "fresh_ids s \<Longrightarrow> fresh_ids (s\<lparr>jobs := js\<rparr>)"
  by (simp add: fresh_ids_def)

lemma fresh_ids_step: "fresh_ids s \<Longrightarrow> fresh_ids (step e s)"
proof (cases e)
  case Tick
  assume "fresh_ids s"
  then show ?thesis using Tick
    by (cases "jobs s") (simp_all add: tick_def fresh_ids_resume fresh_ids_jobs)
qed (auto simp: fresh_ids_def startSession_def endSession_def unmounted_def settleStart_def
      settleClose_def await_start_def await_close_def invoke_endSession_def
      settle_startSession_def Let_def less_Suc_eq split: option.splits)

lemma reachable_fresh_ids: "reachable s \<Longrightarrow> fresh_ids s"
  by (induction rule: reachable.induct) (simp_all add: fresh_ids_init fresh_ids_step)

lemma run_append: "run (xs @ ys) s = run ys (run xs s)"
  by (induction xs arbitrary: s) simp_all

lemma reachable_run: "reachable s \<Longrightarrow> reachable (run es s)"
  by (induction es arbitrary: s) (simp_all add: reachable_step)

lemma filter_fresh_start:
  "fresh_ids s \<Longrightarrow> filter (\<lambda>w. fst w = started s) (start_waiters s) = []"
  "fresh_ids s \<Longrightarrow> filter (\<lambda>w. fst w \<noteq> started s) (start_waiters s) = start_waiters s"
  by (auto simp: fresh_ids_def filter_empty_conv filter_id_conv)

lemma filter_fresh_close:
  "fresh_ids s \<Longrightarrow> closing s \<le> q \<Longrightarrow> filter (\<lambda>w. fst w = q) (close_waiters s) = []"
  "fresh_ids s \<Longrightarrow> closing s \<le> q \<Longrightarrow> filter (\<lambda>w. fst w \<noteq> q) (close_waiters s) = close_waiters s"
  by (auto simp: fresh_ids_def filter_empty_conv filter_id_conv)

lemma fresh_unsettled:
  "fresh_ids s \<Longrightarrow> start_settled s (started s) = None"
  "fresh_ids s \<Longrightarrow> closing s \<le> q \<Longrightarrow> close_settled s q = None"
  by (auto simp: fresh_ids_def)

lemma cancel_during_connect_state:
  assumes r: "reachable s" and i: "idle s" and o: "conversationRef s = None \<or> \<not> isOpen"
  shows "run (cancel_during_connect options isOpen conv s) s =
    s\<lparr>conversationRef := None, lockRef := None, shouldEndRef := True,
      started := Suc (started s),
      start_settled := (start_settled s)(started s \<mapsto> Fulfilled conv),
      closing := Suc (Suc (closing s)),
      close_settled := (close_settled s)(closing s \<mapsto> Fulfilled (), Suc (closing s) \<mapsto> Fulfilled ()),
      calls := calls s @ [StartSession (resolvedOptions (defaultOptions s) options),
                          EndSession conv, EndSession conv],
      ncalls := Suc (Suc (ncalls s)),
      start_result := (start_result s)(ncalls s \<mapsto> Rejected (Error ''Session cancelled during connection'' None)),
      end_result := (end_result s)(Suc (ncalls s) \<mapsto> Fulfilled ())\<rparr>"
proof -
  have f: "fresh_ids s" by (rule reachable_fresh_ids [OF r])
  from i have l: "lockRef s = None" and j: "jobs s = []" by (simp_all add: idle_def)
  note fr = filter_fresh_start [OF f] filter_fresh_close [OF f] fresh_unsettled [OF f]
  define p q c where "p = started s" and "q = closing s" and "c = ncalls s"
  define s1 where "s1 = s\<lparr>lockRef := Some p, shouldEndRef := False, started := Suc p,
      start_waiters := start_waiters s @ [(p, Primary c)],
      calls := calls s @ [StartSession (resolvedOptions (defaultOptions s) options)],
      ncalls := Suc c\<rparr>"
  define s2 where "s2 = s1\<lparr>conversationRef := None, shouldEndRef := True,
      start_waiters := start_waiters s @ [(p, Primary c), (p, EndPending (Suc c))],
      ncalls := Suc (Suc c)\<rparr>"
  define s3 where "s3 = s2\<lparr>start_settled := (start_settled s)(p \<mapsto> Fulfilled conv),
      jobs := [StartJob (Primary c) (Fulfilled conv), StartJob (EndPending (Suc c)) (Fulfilled conv)],
      start_waiters := start_waiters s\<rparr>"
  define s4 where "s4 = s3\<lparr>jobs := [StartJob (EndPending (Suc c)) (Fulfilled conv)],
      conversationRef := Some conv, closing := Suc q,
      calls := calls s3 @ [EndSession conv],
      close_waiters := close_waiters s @ [(q, Cancelled c)]\<rparr>"
  define s5 where "s5 = s4\<lparr>close_settled := (close_settled s)(q \<mapsto> Fulfilled ()),
      jobs := [StartJob (EndPending (Suc c)) (Fulfilled conv), CloseJob (Cancelled c) (Fulfilled ())],
      close_waiters := close_waiters s\<rparr>"
  define s6 where "s6 = s5\<lparr>jobs := [CloseJob (Cancelled c) (Fulfilled ())],
      closing := Suc (Suc q), calls := calls s5 @ [EndSession conv],
      close_waiters := close_waiters s @ [(Suc q, EndClose (Suc c))]\<rparr>"
  define s7 where "s7 = s6\<lparr>close_settled := (close_settled s5)(Suc q \<mapsto> Fulfilled ()),
      jobs := [CloseJob (Cancelled c) (Fulfilled ()), CloseJob (EndClose (Suc c)) (Fulfilled ())],
      close_waiters := close_waiters s\<rparr>"
  define s8 where "s8 = s7\<lparr>jobs := [CloseJob (EndClose (Suc c)) (Fulfilled ())],
      conversationRef := None, lockRef := None,
      start_result := (start_result s)(c \<mapsto> Rejected (Error ''Session cancelled during connection'' None))\<rparr>"
  define s9 where "s9 = s8\<lparr>jobs := [], end_result := (end_result s)(Suc c \<mapsto> Fulfilled ())\<rparr>"
  have 1: "step (CallStartSession options isOpen) s = s1"
    using o l fr(5)
    by (auto simp: s1_def p_def c_def startSession_def await_start_def Let_def)
  have 2: "step CallEndSession s1 = s2"
    using fr(5)
    by (simp add: s2_def s1_def p_def c_def endSession_def await_start_def Let_def)
  have 3: "step (SettleStart p (Fulfilled conv)) s2 = s3"
    using fr(5) j fr(1,2)
    by (simp add: s3_def s2_def s1_def p_def settleStart_def)
  have 4: "step Tick s3 = s4"
    using fr(6) [of "closing s"]
    by (simp add: s4_def s3_def s2_def s1_def q_def tick_def resume_primary_def
        await_close_def invoke_endSession_def Let_def)
  have 5: "step (SettleClose q (Fulfilled ())) s4 = s5"
    using fr(6) [of "closing s"] fr(3,4) [of "closing s"]
    by (simp add: s5_def s4_def s3_def s2_def s1_def q_def settleClose_def)
  have 6: "step Tick s5 = s6"
    using fr(6) [of "Suc (closing s)"]
    by (simp add: s6_def s5_def s4_def s3_def s2_def s1_def q_def tick_def resume_endPending_def
        await_close_def invoke_endSession_def Let_def)
  have 7: "step (SettleClose (Suc q) (Fulfilled ())) s6 = s7"
    using fr(6) [of "Suc (closing s)"] fr(3,4) [of "Suc (closing s)"]
    by (simp add: s7_def s6_def s5_def s4_def s3_def s2_def s1_def q_def settleClose_def)
  have 8: "step Tick s7 = s8"
    by (simp add: s8_def s7_def s6_def s5_def s4_def s3_def s2_def s1_def tick_def
        resume_cancelled_def finally_startSession_def settle_startSession_def)
  have 9: "step Tick s8 = s9"
    by (simp add: s9_def s8_def s7_def s6_def s5_def s4_def s3_def s2_def s1_def tick_def
        resume_endClose_def settle_endSession_def)
  have "run (cancel_during_connect options isOpen conv s) s = s9"
    by (simp only: cancel_during_connect_def run.simps 1 2 3 4 5 6 7 8 9
        p_def [symmetric] q_def [symmetric])
  also have "s9 = s\<lparr>conversationRef := None, lockRef := None, shouldEndRef := True,
      started := Suc (started s),
      start_settled := (start_settled s)(started s \<mapsto> Fulfilled conv),
      closing := Suc (Suc (closing s)),
      close_settled := (close_settled s)(closing s \<mapsto> Fulfilled (), Suc (closing s) \<mapsto> Fulfilled ()),
      calls := calls s @ [StartSession (resolvedOptions (defaultOptions s) options),
                          EndSession conv, EndSession conv],
      ncalls := Suc (Suc (ncalls s)),
      start_result := (start_result s)(ncalls s \<mapsto> Rejected (Error ''Session cancelled during connection'' None)),
      end_result := (end_result s)(Suc (ncalls s) \<mapsto> Fulfilled ())\<rparr>"
    using j
    by (simp add: s9_def s8_def s7_def s6_def s5_def s4_def s3_def s2_def s1_def p_def q_def c_def)
  finally show ?thesis .
qed


lemma applyControlled_eq:
  "applyControlled conv s = s\<lparr>calls := calls s @ controlled_calls conv s\<rparr>"
  by (cases "micMuted s"; cases "volume s") (simp_all add: applyControlled_def controlled_calls_def)

lemma controlled_calls_update [simp]:
  "controlled_calls conv (s\<lparr>conversationRef := a\<rparr>) = controlled_calls conv s"
  "controlled_calls conv (s\<lparr>jobs := b\<rparr>) = controlled_calls conv s"
  "controlled_calls conv (s\<lparr>lockRef := c\<rparr>) = controlled_calls conv s"
  "controlled_calls conv (s\<lparr>shouldEndRef := d\<rparr>) = controlled_calls conv s"
  "controlled_calls conv (s\<lparr>started := e\<rparr>) = controlled_calls conv s"
  "controlled_calls conv (s\<lparr>start_waiters := f\<rparr>) = controlled_calls conv s"
  "controlled_calls conv (s\<lparr>calls := g\<rparr>) = controlled_calls conv s"
  "controlled_calls conv (s\<lparr>ncalls := h\<rparr>) = controlled_calls conv s"
  "controlled_calls conv (s\<lparr>start_settled := i\<rparr>) = controlled_calls conv s"
  "controlled_calls conv (s\<lparr>start_result := j\<rparr>) = controlled_calls conv s"
  by (simp_all add: controlled_calls_def)

lemma acquire_fulfilled_state:
  assumes r: "reachable s" and i: "idle s" and o: "conversationRef s = None \<or> \<not> isOpen"
  shows "run (acquire options isOpen (Fulfilled conv) s) s =
    s\<lparr>conversationRef := Some conv, lockRef := None, shouldEndRef := False,
      started := Suc (started s),
      start_settled := (start_settled s)(started s \<mapsto> Fulfilled conv),
      calls := calls s @ StartSession (resolvedOptions (defaultOptions s) options)
                 # controlled_calls conv s,
      ncalls := Suc (ncalls s),
      start_result := (start_result s)(ncalls s \<mapsto> Fulfilled (getId conv))\<rparr>"
proof -
  have f: "fresh_ids s" by (rule reachable_fresh_ids [OF r])
  from i have l: "lockRef s = None" and j: "jobs s = []" by (simp_all add: idle_def)
  note fr = filter_fresh_start [OF f] fresh_unsettled(1) [OF f]
  define p c where "p = started s" and "c = ncalls s"
  define s1 where "s1 = s\<lparr>lockRef := Some p, shouldEndRef := False, started := Suc p,
      start_waiters := start_waiters s @ [(p, Primary c)],
      calls := calls s @ [StartSession (resolvedOptions (defaultOptions s) options)],
      ncalls := Suc c\<rparr>"
  define s2 where "s2 = s1\<lparr>start_settled := (start_settled s)(p \<mapsto> Fulfilled conv),
      jobs := [StartJob (Primary c) (Fulfilled conv)],
      start_waiters := start_waiters s\<rparr>"
  define s3 where "s3 = s2\<lparr>jobs := [], conversationRef := Some conv, lockRef := None,
      calls := calls s2 @ controlled_calls conv s,
      start_result := (start_result s)(c \<mapsto> Fulfilled (getId conv))\<rparr>"
  have 1: "step (CallStartSession options isOpen) s = s1"
    using o l fr(3)
    by (auto simp: s1_def p_def c_def startSession_def await_start_def Let_def)
  have 2: "step (SettleStart p (Fulfilled conv)) s1 = s2"
    using fr j
    by (simp add: s2_def s1_def p_def settleStart_def)
  have 3: "step Tick s2 = s3"
    by (simp add: s3_def s2_def s1_def tick_def resume_primary_def applyControlled_eq
        finally_startSession_def settle_startSession_def Let_def)
  have "run (acquire options isOpen (Fulfilled conv) s) s = s3"
    by (simp only: acquire_def run.simps 1 2 3 p_def [symmetric])
  also have "s3 = s\<lparr>conversationRef := Some conv, lockRef := None, shouldEndRef := False,
      started := Suc (started s),
      start_settled := (start_settled s)(started s \<mapsto> Fulfilled conv),
      calls := calls s @ StartSession (resolvedOptions (defaultOptions s) options)
                 # controlled_calls conv s,
      ncalls := Suc (ncalls s),
      start_result := (start_result s)(ncalls s \<mapsto> Fulfilled (getId conv))\<rparr>"
    using j by (simp add: s3_def s2_def s1_def p_def c_def)
  finally show ?thesis .
qed

lemma acquire_rejected_state:
  assumes r: "reachable s" and i: "idle s" and o: "conversationRef s = None \<or> \<not> isOpen"
  shows "run (acquire options isOpen (Rejected e) s) s =
    s\<lparr>lockRef := None, shouldEndRef := False,
      started := Suc (started s),
      start_settled := (start_settled s)(started s \<mapsto> Rejected e),
      calls := calls s @ [StartSession (resolvedOptions (defaultOptions s) options)],
      ncalls := Suc (ncalls s),
      start_result := (start_result s)(ncalls s \<mapsto> Rejected e)\<rparr>"
proof -
  have f: "fresh_ids s" by (rule reachable_fresh_ids [OF r])
  from i have l: "lockRef s = None" and j: "jobs s = []" by (simp_all add: idle_def)
  note fr = filter_fresh_start [OF f] fresh_unsettled(1) [OF f]
  define p c where "p = started s" and "c = ncalls s"
  define s1 where "s1 = s\<lparr>lockRef := Some p, shouldEndRef := False, started := Suc p,
      start_waiters := start_waiters s @ [(p, Primary c)],
      calls := calls s @ [StartSession (resolvedOptions (defaultOptions s) options)],
      ncalls := Suc c\<rparr>"
  define s2 where "s2 = s1\<lparr>start_settled := (start_settled s)(p \<mapsto> Rejected e),
      jobs := [StartJob (Primary c) (Rejected e)],
      start_waiters := start_waiters s\<rparr>"
  define s3 where "s3 = s2\<lparr>jobs := [], lockRef := None,
      start_result := (start_result s)(c \<mapsto> Rejected e)\<rparr>"
  have 1: "step (CallStartSession options isOpen) s = s1"
    using o l fr(3)
    by (auto simp: s1_def p_def c_def startSession_def await_start_def Let_def)
  have 2: "step (SettleStart p (Rejected e)) s1 = s2"
    using fr j
    by (simp add: s2_def s1_def p_def settleStart_def)
  have 3: "step Tick s2 = s3"
    by (simp add: s3_def s2_def s1_def tick_def resume_primary_def
        finally_startSession_def settle_startSession_def)
  have "run (acquire options isOpen (Rejected e) s) s = s3"
    by (simp only: acquire_def run.simps 1 2 3 p_def [symmetric])
  also have "s3 = s\<lparr>lockRef := None, shouldEndRef := False,
      started := Suc (started s),
      start_settled := (start_settled s)(started s \<mapsto> Rejected e),
      calls := calls s @ [StartSession (resolvedOptions (defaultOptions s) options)],
      ncalls := Suc (ncalls s),
      start_result := (start_result s)(ncalls s \<mapsto> Rejected e)\<rparr>"
    using j by (simp add: s3_def s2_def s1_def p_def c_def)
  finally show ?thesis .
qed

lemma start_twice_state:
  assumes r: "reachable s" and i: "idle s"
    and o: "conversationRef s = None \<or> (\<not> isOpen \<and> \<not> isOpen')"
  shows "run (start_twice options isOpen options' isOpen' conv s) s =
    s\<lparr>conversationRef := Some conv, lockRef := None, shouldEndRef := False,
      started := Suc (started s),
      start_settled := (start_settled s)(started s \<mapsto> Fulfilled conv),
      calls := calls s @ StartSession (resolvedOptions (defaultOptions s) options)
                 # controlled_calls conv s,
      ncalls := Suc (Suc (ncalls s)),
      start_result := (start_result s)(ncalls s \<mapsto> Fulfilled (getId conv),
                                       Suc (ncalls s) \<mapsto> Fulfilled (getId conv))\<rparr>"
proof -
  have f: "fresh_ids s" by (rule reachable_fresh_ids [OF r])
  from i have l: "lockRef s = None" and j: "jobs s = []" by (simp_all add: idle_def)
  note fr = filter_fresh_start [OF f] fresh_unsettled(1) [OF f]
  define p c where "p = started s" and "c = ncalls s"
  define s1 where "s1 = s\<lparr>lockRef := Some p, shouldEndRef := False, started := Suc p,
      start_waiters := start_waiters s @ [(p, Primary c)],
      calls := calls s @ [StartSession (resolvedOptions (defaultOptions s) options)],
      ncalls := Suc c\<rparr>"
  define s2 where "s2 = s1\<lparr>start_waiters := start_waiters s @ [(p, Primary c), (p, Join (Suc c))],
      ncalls := Suc (Suc c)\<rparr>"
  define s3 where "s3 = s2\<lparr>start_settled := (start_settled s)(p \<mapsto> Fulfilled conv),
      jobs := [StartJob (Primary c) (Fulfilled conv), StartJob (Join (Suc c)) (Fulfilled conv)],
      start_waiters := start_waiters s\<rparr>"
  define s4 where "s4 = s3\<lparr>jobs := [StartJob (Join (Suc c)) (Fulfilled conv)],
      conversationRef := Some conv, lockRef := None,
      calls := calls s3 @ controlled_calls conv s,
      start_result := (start_result s)(c \<mapsto> Fulfilled (getId conv))\<rparr>"
  define s5 where "s5 = s4\<lparr>jobs := [],
      start_result := (start_result s4)(Suc c \<mapsto> Fulfilled (getId conv))\<rparr>"
  have 1: "step (CallStartSession options isOpen) s = s1"
    using o l fr(3)
    by (auto simp: s1_def p_def c_def startSession_def await_start_def Let_def)
  have 2: "step (CallStartSession options' isOpen') s1 = s2"
    using o fr(3)
    by (auto simp: s2_def s1_def p_def c_def startSession_def await_start_def Let_def)
  have 3: "step (SettleStart p (Fulfilled conv)) s2 = s3"
    using fr j
    by (simp add: s3_def s2_def s1_def p_def settleStart_def)
  have 4: "step Tick s3 = s4"
    by (simp add: s4_def s3_def s2_def s1_def tick_def resume_primary_def applyControlled_eq
        finally_startSession_def settle_startSession_def Let_def)
  have 5: "step Tick s4 = s5"
    by (simp add: s5_def s4_def s3_def s2_def s1_def tick_def resume_join_def
        settle_startSession_def)
  have "run (start_twice options isOpen options' isOpen' conv s) s = s5"
    by (simp only: start_twice_def run.simps 1 2 3 4 5 p_def [symmetric])
  also have "s5 = s\<lparr>conversationRef := Some conv, lockRef := None, shouldEndRef := False,
      started := Suc (started s),
      start_settled := (start_settled s)(started s \<mapsto> Fulfilled conv),
      calls := calls s @ StartSession (resolvedOptions (defaultOptions s) options)
                 # controlled_calls conv s,
      ncalls := Suc (Suc (ncalls s)),
      start_result := (start_result s)(ncalls s \<mapsto> Fulfilled (getId conv),
                                       Suc (ncalls s) \<mapsto> Fulfilled (getId conv))\<rparr>"
    using j by (simp add: s5_def s4_def s3_def s2_def s1_def p_def c_def)
  finally show ?thesis .
qed


lemma cancel_window_state:
  assumes r: "reachable s" and i: "idle s" and o: "conversationRef s = None \<or> \<not> isOpen"
  shows "run (cancel_window options isOpen conv s) s =
    s\<lparr>conversationRef := Some conv, lockRef := Some (started s), shouldEndRef := True,
      started := Suc (started s),
      start_settled := (start_settled s)(started s \<mapsto> Fulfilled conv),
      closing := Suc (closing s),
      close_waiters := close_waiters s @ [(closing s, Cancelled (ncalls s))],
      jobs := [StartJob (EndPending (Suc (ncalls s))) (Fulfilled conv)],
      calls := calls s @ [StartSession (resolvedOptions (defaultOptions s) options),
                          EndSession conv],
      ncalls := Suc (Suc (ncalls s))\<rparr>"
proof -
  have f: "fresh_ids s" by (rule reachable_fresh_ids [OF r])
  from i have l: "lockRef s = None" and j: "jobs s = []" by (simp_all add: idle_def)
  note fr = filter_fresh_start [OF f] filter_fresh_close [OF f] fresh_unsettled [OF f]
  define p q c where "p = started s" and "q = closing s" and "c = ncalls s"
  define s1 where "s1 = s\<lparr>lockRef := Some p, shouldEndRef := False, started := Suc p,
      start_waiters := start_waiters s @ [(p, Primary c)],
      calls := calls s @ [StartSession (resolvedOptions (defaultOptions s) options)],
      ncalls := Suc c\<rparr>"
  define s2 where "s2 = s1\<lparr>conversationRef := None, shouldEndRef := True,
      start_waiters := start_waiters s @ [(p, Primary c), (p, EndPending (Suc c))],
      ncalls := Suc (Suc c)\<rparr>"
  define s3 where "s3 = s2\<lparr>start_settled := (start_settled s)(p \<mapsto> Fulfilled conv),
      jobs := [StartJob (Primary c) (Fulfilled conv), StartJob (EndPending (Suc c)) (Fulfilled conv)],
      start_waiters := start_waiters s\<rparr>"
  define s4 where "s4 = s3\<lparr>jobs := [StartJob (EndPending (Suc c)) (Fulfilled conv)],
      conversationRef := Some conv, closing := Suc q,
      calls := calls s3 @ [EndSession conv],
      close_waiters := close_waiters s @ [(q, Cancelled c)]\<rparr>"
  have 1: "step (CallStartSession options isOpen) s = s1"
    using o l fr(5)
    by (auto simp: s1_def p_def c_def startSession_def await_start_def Let_def)
  have 2: "step CallEndSession s1 = s2"
    using fr(5)
    by (simp add: s2_def s1_def p_def c_def endSession_def await_start_def Let_def)
  have 3: "step (SettleStart p (Fulfilled conv)) s2 = s3"
    using fr(5) j fr(1,2)
    by (simp add: s3_def s2_def s1_def p_def settleStart_def)
  have 4: "step Tick s3 = s4"
    using fr(6) [of "closing s"]
    by (simp add: s4_def s3_def s2_def s1_def q_def tick_def resume_primary_def
        await_close_def invoke_endSession_def Let_def)
  have "run (cancel_window options isOpen conv s) s = s4"
    by (simp only: cancel_window_def run.simps 1 2 3 4 p_def [symmetric])
  also have "s4 = s\<lparr>conversationRef := Some conv, lockRef := Some (started s), shouldEndRef := True,
      started := Suc (started s),
      start_settled := (start_settled s)(started s \<mapsto> Fulfilled conv),
      closing := Suc (closing s),
      close_waiters := close_waiters s @ [(closing s, Cancelled (ncalls s))],
      jobs := [StartJob (EndPending (Suc (ncalls s))) (Fulfilled conv)],
      calls := calls s @ [StartSession (resolvedOptions (defaultOptions s) options),
                          EndSession conv],
      ncalls := Suc (Suc (ncalls s))\<rparr>"
    by (simp add: s4_def s3_def s2_def s1_def p_def q_def c_def)
  finally show ?thesis .
qed

lemma join_then_cancel_state:
  assumes r: "reachable s" and i: "idle s"
    and o: "conversationRef s = None \<or> (\<not> isOpen \<and> \<not> isOpen')"
  shows "run (join_then_cancel options isOpen options' isOpen' conv s) s =
    s\<lparr>conversationRef := None, lockRef := None, shouldEndRef := True,
      started := Suc (started s),
      start_settled := (start_settled s)(started s \<mapsto> Fulfilled conv),
      closing := Suc (Suc (closing s)),
      close_settled := (close_settled s)(closing s \<mapsto> Fulfilled (), Suc (closing s) \<mapsto> Fulfilled ()),
      calls := calls s @ [StartSession (resolvedOptions (defaultOptions s) options),
                          EndSession conv, EndSession conv],
      ncalls := Suc (Suc (Suc (ncalls s))),
      start_result := (start_result s)
        (Suc (ncalls s) \<mapsto> Fulfilled (getId conv),
         ncalls s \<mapsto> Rejected (Error ''Session cancelled during connection'' None)),
      end_result := (end_result s)(Suc (Suc (ncalls s)) \<mapsto> Fulfilled ())\<rparr>"
proof -
  have f: "fresh_ids s" by (rule reachable_fresh_ids [OF r])
  from i have l: "lockRef s = None" and j: "jobs s = []" by (simp_all add: idle_def)
  note fr = filter_fresh_start [OF f] filter_fresh_close [OF f] fresh_unsettled [OF f]
  define p q c where "p = started s" and "q = closing s" and "c = ncalls s"
  define e where "e = StartJob (EndPending (Suc (Suc c))) (Fulfilled conv)"
  define s1 where "s1 = s\<lparr>lockRef := Some p, shouldEndRef := False, started := Suc p,
      start_waiters := start_waiters s @ [(p, Primary c)],
      calls := calls s @ [StartSession (resolvedOptions (defaultOptions s) options)],
      ncalls := Suc c\<rparr>"
  define s1' where "s1' = s1\<lparr>start_waiters := start_waiters s @ [(p, Primary c), (p, Join (Suc c))],
      ncalls := Suc (Suc c)\<rparr>"
  define s2 where "s2 = s1'\<lparr>conversationRef := None, shouldEndRef := True,
      start_waiters := start_waiters s
         @ [(p, Primary c), (p, Join (Suc c)), (p, EndPending (Suc (Suc c)))],
      ncalls := Suc (Suc (Suc c))\<rparr>"
  define s3 where "s3 = s2\<lparr>start_settled := (start_settled s)(p \<mapsto> Fulfilled conv),
      jobs := [StartJob (Primary c) (Fulfilled conv), StartJob (Join (Suc c)) (Fulfilled conv), e],
      start_waiters := start_waiters s\<rparr>"
  define s4 where "s4 = s3\<lparr>jobs := [StartJob (Join (Suc c)) (Fulfilled conv), e],
      conversationRef := Some conv, closing := Suc q,
      calls := calls s3 @ [EndSession conv],
      close_waiters := close_waiters s @ [(q, Cancelled c)]\<rparr>"
  define s5 where "s5 = s4\<lparr>close_settled := (close_settled s)(q \<mapsto> Fulfilled ()),
      jobs := [StartJob (Join (Suc c)) (Fulfilled conv), e, CloseJob (Cancelled c) (Fulfilled ())],
      close_waiters := close_waiters s\<rparr>"
  define s5' where "s5' = s5\<lparr>jobs := [e, CloseJob (Cancelled c) (Fulfilled ())],
      start_result := (start_result s)(Suc c \<mapsto> Fulfilled (getId conv))\<rparr>"
  define s6 where "s6 = s5'\<lparr>jobs := [CloseJob (Cancelled c) (Fulfilled ())],
      closing := Suc (Suc q), calls := calls s5 @ [EndSession conv],
      close_waiters := close_waiters s @ [(Suc q, EndClose (Suc (Suc c)))]\<rparr>"
  define s7 where "s7 = s6\<lparr>close_settled := (close_settled s5)(Suc q \<mapsto> Fulfilled ()),
      jobs := [CloseJob (Cancelled c) (Fulfilled ()), CloseJob (EndClose (Suc (Suc c))) (Fulfilled ())],
      close_waiters := close_waiters s\<rparr>"
  define s8 where "s8 = s7\<lparr>jobs := [CloseJob (EndClose (Suc (Suc c))) (Fulfilled ())],
      conversationRef := None, lockRef := None,
      start_result := (start_result s5')(c \<mapsto> Rejected (Error ''Session cancelled during connection'' None))\<rparr>"
  define s9 where "s9 = s8\<lparr>jobs := [], end_result := (end_result s)(Suc (Suc c) \<mapsto> Fulfilled ())\<rparr>"
  have 1: "step (CallStartSession options isOpen) s = s1"
    using o l fr(5)
    by (auto simp: s1_def p_def c_def startSession_def await_start_def Let_def)
  have x1: "step (CallStartSession options' isOpen') s1 = s1'"
    using o fr(5)
    by (auto simp: s1'_def s1_def p_def c_def startSession_def await_start_def Let_def)
  have 2: "step CallEndSession s1' = s2"
    using fr(5)
    by (simp add: s2_def s1'_def s1_def p_def c_def endSession_def await_start_def Let_def)
  have 3: "step (SettleStart p (Fulfilled conv)) s2 = s3"
    using fr(5) j fr(1,2)
    by (simp add: s3_def s2_def s1'_def s1_def p_def e_def settleStart_def)
  have 4: "step Tick s3 = s4"
    using fr(6) [of "closing s"]
    by (simp add: s4_def s3_def s2_def s1'_def s1_def q_def tick_def resume_primary_def
        await_close_def invoke_endSession_def Let_def)
  have 5: "step (SettleClose q (Fulfilled ())) s4 = s5"
    using fr(6) [of "closing s"] fr(3,4) [of "closing s"]
    by (simp add: s5_def s4_def s3_def s2_def s1'_def s1_def q_def settleClose_def)
  have x5: "step Tick s5 = s5'"
    by (simp add: s5'_def s5_def s4_def s3_def s2_def s1'_def s1_def tick_def resume_join_def
        settle_startSession_def)
  have 6: "step Tick s5' = s6"
    using fr(6) [of "Suc (closing s)"]
    by (simp add: s6_def s5'_def s5_def s4_def s3_def s2_def s1'_def s1_def q_def e_def tick_def
        resume_endPending_def await_close_def invoke_endSession_def Let_def)
  have 7: "step (SettleClose (Suc q) (Fulfilled ())) s6 = s7"
    using fr(6) [of "Suc (closing s)"] fr(3,4) [of "Suc (closing s)"]
    by (simp add: s7_def s6_def s5'_def s5_def s4_def s3_def s2_def s1'_def s1_def q_def
        settleClose_def)
  have 8: "step Tick s7 = s8"
    by (simp add: s8_def s7_def s6_def s5'_def s5_def s4_def s3_def s2_def s1'_def s1_def tick_def
        resume_cancelled_def finally_startSession_def settle_startSession_def)
  have 9: "step Tick s8 = s9"
    by (simp add: s9_def s8_def s7_def s6_def s5'_def s5_def s4_def s3_def s2_def s1'_def s1_def
        tick_def resume_endClose_def settle_endSession_def)
  have "run (join_then_cancel options isOpen options' isOpen' conv s) s = s9"
    by (simp only: join_then_cancel_def run.simps 1 x1 2 3 4 5 x5 6 7 8 9
        p_def [symmetric] q_def [symmetric])
  also have "s9 = s\<lparr>conversationRef := None, lockRef := None, shouldEndRef := True,
      started := Suc (started s),
      start_settled := (start_settled s)(started s \<mapsto> Fulfilled conv),
      closing := Suc (Suc (closing s)),
      close_settled := (close_settled s)(closing s \<mapsto> Fulfilled (), Suc (closing s) \<mapsto> Fulfilled ()),
      calls := calls s @ [StartSession (resolvedOptions (defaultOptions s) options),
                          EndSession conv, EndSession conv],
      ncalls := Suc (Suc (Suc (ncalls s))),
      start_result := (start_result s)
        (Suc (ncalls s) \<mapsto> Fulfilled (getId conv),
         ncalls s \<mapsto> Rejected (Error ''Session cancelled during connection'' None)),
      end_result := (end_result s)(Suc (Suc (ncalls s)) \<mapsto> Fulfilled ())\<rparr>"
    using j
    by (simp add: s9_def s8_def s7_def s6_def s5'_def s5_def s4_def s3_def s2_def s1'_def s1_def
        p_def q_def c_def)
  finally show ?thesis .
qed

lemma reachable_test: "reachable useConversation_test"
  unfolding useConversation_test_def by (rule reachable_init)

lemma idle_test: "idle useConversation_test"
  by (simp add: idle_def useConversation_test_def init_def)

lemma test_fields:
  "conversationRef useConversation_test = None"
  "calls useConversation_test = []"
  "ncalls useConversation_test = 0"
  "started useConversation_test = 0"
  "closing useConversation_test = 0"
  "micMuted useConversation_test = None"
  "volume useConversation_test = None"
  "start_result useConversation_test = Map.empty"
  "close_waiters useConversation_test = []"
  "start_waiters useConversation_test = []"
  by (simp_all add: useConversation_test_def init_def)


section \<open>Further facts about single steps and the test composable\<close>

lemma filter_controlled_calls [simp]:
  "filter is_StartSession (controlled_calls conv s) = []"
  by (cases "micMuted s"; cases "volume s") (simp_all add: controlled_calls_def)

lemma startSession_resets_flag:
  "lockRef s = None \<Longrightarrow> conversationRef s = None \<or> \<not> isOpen \<Longrightarrow>
   \<not> shouldEndRef (startSession options isOpen s)"
  by (auto simp: startSession_def await_start_def Let_def split: option.splits)

lemma reachable_acquired:
  "reachable (run (acquire None False (Fulfilled conv) useConversation_test) useConversation_test)"
  by (rule reachable_run [OF reachable_test])

lemma acquired_test:
  "run (acquire None False (Fulfilled conv) useConversation_test) useConversation_test
   = useConversation_test\<lparr>conversationRef := Some conv, lockRef := None, shouldEndRef := False,
      started := Suc 0, start_settled := [0 \<mapsto> Fulfilled conv],
      calls := [StartSession (resolvedOptions (defaultOptions useConversation_test) None)],
      ncalls := Suc 0, start_result := [0 \<mapsto> Fulfilled (getId conv)]\<rparr>"
  using acquire_fulfilled_state [OF reachable_test idle_test, of False None conv]
  by (simp add: test_fields controlled_calls_def useConversation_test_def init_def)

lemma idle_acquired:
  "idle (run (acquire None False (Fulfilled conv) useConversation_test) useConversation_test)"
  using idle_test by (simp add: acquired_test idle_def)

section \<open>The guard invariant\<close>

lemma filter_split_length:
  "length (filter P (filter Q xs)) + length (filter P (filter (\<lambda>x. \<not> Q x) xs))
   = length (filter P xs)"
  by (induction xs) auto

lemma filter_start_jobs:
  "filter primary_job (map (\<lambda>w. StartJob (snd w) v) ws)
   = map (\<lambda>w. StartJob (snd w) v) (filter (\<lambda>w. is_primary (snd w)) ws)"
  "filter cancelled_job (map (\<lambda>w. StartJob (snd w) v) ws) = []"
  by (induction ws) auto

lemma filter_close_jobs:
  "filter cancelled_job (map (\<lambda>w. CloseJob (snd w) u) ws)
   = map (\<lambda>w. CloseJob (snd w) u) (filter (\<lambda>w. is_cancelled (snd w)) ws)"
  "filter primary_job (map (\<lambda>w. CloseJob (snd w) u) ws) = []"
  by (induction ws) auto

lemma guard_inv_init: "guard_inv (init d m v)"
  by (simp add: guard_inv_def primaries_def cancels_def init_def)

lemma guard_inv_startSession: "guard_inv s \<Longrightarrow> guard_inv (startSession options isOpen s)"
  by (auto simp: guard_inv_def primaries_def cancels_def startSession_def await_start_def
      settle_startSession_def Let_def split: option.splits)

lemma guard_inv_endSession: "guard_inv s \<Longrightarrow> guard_inv (endSession s)"
  by (auto simp: guard_inv_def primaries_def cancels_def endSession_def await_start_def
      await_close_def invoke_endSession_def Let_def split: option.splits)

lemma guard_inv_unmounted: "guard_inv s \<Longrightarrow> guard_inv (unmounted s)"
  by (auto simp: guard_inv_def primaries_def cancels_def unmounted_def await_start_def
      invoke_endSession_def Let_def split: option.splits)

lemma guard_inv_settleStart: "guard_inv s \<Longrightarrow> guard_inv (settleStart p v s)"
  using filter_split_length [of "\<lambda>w. is_primary (snd w)" "\<lambda>w. fst w = p" "start_waiters s"]
  by (auto simp: guard_inv_def primaries_def cancels_def settleStart_def filter_start_jobs)

lemma guard_inv_settleClose: "guard_inv s \<Longrightarrow> guard_inv (settleClose q v s)"
  using filter_split_length [of "\<lambda>w. is_cancelled (snd w)" "\<lambda>w. fst w = q" "close_waiters s"]
  by (auto simp: guard_inv_def primaries_def cancels_def settleClose_def filter_close_jobs)

lemma guard_inv_primary:
  assumes "guard_inv s" and "jobs s = StartJob (Primary c) v # js"
  shows "guard_inv (resume_primary c v (s\<lparr>jobs := js\<rparr>))"
  using assms
  by (auto simp: guard_inv_def primaries_def cancels_def resume_primary_def
      finally_startSession_def settle_startSession_def applyControlled_def await_close_def
      invoke_endSession_def Let_def split: settled.splits option.splits if_splits)

lemma guard_inv_cancelled:
  assumes "guard_inv s" and "jobs s = CloseJob (Cancelled c) v # js"
  shows "guard_inv (resume_cancelled c v (s\<lparr>jobs := js\<rparr>))"
  using assms
  by (auto simp: guard_inv_def primaries_def cancels_def resume_cancelled_def
      finally_startSession_def settle_startSession_def split: settled.splits if_splits)

lemma guard_inv_join:
  assumes "guard_inv s" and "jobs s = StartJob (Join c) v # js"
  shows "guard_inv (resume_join c v (s\<lparr>jobs := js\<rparr>))"
  using assms
  by (auto simp: guard_inv_def primaries_def cancels_def resume_join_def
      settle_startSession_def split: settled.splits)

lemma guard_inv_endPending:
  assumes "guard_inv s" and "jobs s = StartJob (EndPending c) v # js"
  shows "guard_inv (resume_endPending c v (s\<lparr>jobs := js\<rparr>))"
  using assms
  by (auto simp: guard_inv_def primaries_def cancels_def resume_endPending_def
      settle_endSession_def await_close_def invoke_endSession_def
      split: settled.splits option.splits)

lemma guard_inv_unmountThen:
  assumes "guard_inv s" and "jobs s = StartJob UnmountThen v # js"
  shows "guard_inv (resume_unmountThen v (s\<lparr>jobs := js\<rparr>))"
  using assms
  by (auto simp: guard_inv_def primaries_def cancels_def resume_unmountThen_def
      invoke_endSession_def split: settled.splits)

lemma guard_inv_endClose:
  assumes "guard_inv s" and "jobs s = CloseJob (EndClose c) v # js"
  shows "guard_inv (resume_endClose c v (s\<lparr>jobs := js\<rparr>))"
  using assms
  by (auto simp: guard_inv_def primaries_def cancels_def resume_endClose_def
      settle_endSession_def)

lemma guard_inv_tick: "guard_inv s \<Longrightarrow> guard_inv (tick s)"
proof (cases "jobs s")
  case Nil
  assume "guard_inv s"
  with Nil show ?thesis by (simp add: tick_def)
next
  case (Cons j js)
  assume g: "guard_inv s"
  show ?thesis
  proof (cases j)
    case (StartJob k v)
    with g Cons show ?thesis
      by (cases k) (simp_all add: tick_def guard_inv_primary guard_inv_join
          guard_inv_endPending guard_inv_unmountThen)
  next
    case (CloseJob k v)
    with g Cons show ?thesis
      by (cases k) (simp_all add: tick_def guard_inv_cancelled guard_inv_endClose)
  qed
qed

lemma guard_inv_step: "guard_inv s \<Longrightarrow> guard_inv (step e s)"
  by (cases e) (simp_all add: guard_inv_startSession guard_inv_endSession guard_inv_unmounted
      guard_inv_settleStart guard_inv_settleClose guard_inv_tick)

lemma reachable_guard_inv: "reachable s \<Longrightarrow> guard_inv s"
  by (induction rule: reachable.induct) (simp_all add: guard_inv_init guard_inv_step)

section \<open>Every call has one continuation\<close>

lemma filter_owner_start_jobs:
  "filter (\<lambda>j. job_owner j = Some c) (map (\<lambda>w. StartJob (snd w) v) ws)
   = map (\<lambda>w. StartJob (snd w) v) (filter (\<lambda>w. start_owner (snd w) = Some c) ws)"
  by (induction ws) auto

lemma filter_owner_close_jobs:
  "filter (\<lambda>j. job_owner j = Some c) (map (\<lambda>w. CloseJob (snd w) u) ws)
   = map (\<lambda>w. CloseJob (snd w) u) (filter (\<lambda>w. close_owner (snd w) = Some c) ws)"
  by (induction ws) auto

lemma calls_inv_init: "calls_inv (init d m v)"
  by (simp add: calls_inv_def continuations_def init_def)

lemma calls_inv_startSession: "calls_inv s \<Longrightarrow> calls_inv (startSession options isOpen s)"
  unfolding calls_inv_def
  by (auto simp: continuations_def startSession_def await_start_def
      settle_startSession_def Let_def split: option.splits)

lemma calls_inv_endSession: "calls_inv s \<Longrightarrow> calls_inv (endSession s)"
  unfolding calls_inv_def
  by (auto simp: continuations_def endSession_def await_start_def
      await_close_def invoke_endSession_def Let_def split: option.splits)

lemma calls_inv_unmounted: "calls_inv s \<Longrightarrow> calls_inv (unmounted s)"
  unfolding calls_inv_def
  by (auto simp: continuations_def unmounted_def await_start_def
      invoke_endSession_def Let_def split: option.splits)

lemma continuations_settleStart: "continuations c (settleStart p v s) = continuations c s"
  using filter_split_length [of "\<lambda>w. start_owner (snd w) = Some c" "\<lambda>w. fst w = p" "start_waiters s"]
  by (simp add: continuations_def settleStart_def filter_owner_start_jobs)

lemma continuations_settleClose: "continuations c (settleClose q v s) = continuations c s"
  using filter_split_length [of "\<lambda>w. close_owner (snd w) = Some c" "\<lambda>w. fst w = q" "close_waiters s"]
  by (simp add: continuations_def settleClose_def filter_owner_close_jobs)

lemma calls_inv_settleStart: "calls_inv s \<Longrightarrow> calls_inv (settleStart p v s)"
  unfolding calls_inv_def continuations_settleStart
  by (simp add: settleStart_def)

lemma calls_inv_settleClose: "calls_inv s \<Longrightarrow> calls_inv (settleClose q v s)"
  unfolding calls_inv_def continuations_settleClose
  by (simp add: settleClose_def)

lemma calls_inv_tick: "calls_inv s \<Longrightarrow> calls_inv (tick s)"
proof (cases "jobs s")
  case Nil
  assume "calls_inv s"
  with Nil show ?thesis by (simp add: tick_def)
next
  case (Cons j js)
  assume g: "calls_inv s"
  show ?thesis
  proof (cases "(j, s\<lparr>jobs := js\<rparr>)" rule: resume.cases)
    case (1 c v s')
    with g Cons show ?thesis
      unfolding calls_inv_def
      by (auto simp: tick_def continuations_def resume_primary_def
          finally_startSession_def settle_startSession_def applyControlled_eq await_close_def
          invoke_endSession_def Let_def split: settled.splits option.splits if_splits)
  next
    case (2 c v s')
    with g Cons show ?thesis
      unfolding calls_inv_def
      by (auto simp: tick_def continuations_def resume_join_def
          settle_startSession_def split: settled.splits if_splits)
  next
    case (3 c v s')
    with g Cons show ?thesis
      unfolding calls_inv_def
      by (auto simp: tick_def continuations_def resume_endPending_def
          settle_endSession_def await_close_def invoke_endSession_def split: settled.splits option.splits)
  next
    case (4 v s')
    with g Cons show ?thesis
      unfolding calls_inv_def
      by (auto simp: tick_def continuations_def resume_unmountThen_def
          invoke_endSession_def split: settled.splits)
  next
    case (5 c v s')
    with g Cons show ?thesis
      unfolding calls_inv_def
      by (auto simp: tick_def continuations_def resume_cancelled_def
          finally_startSession_def settle_startSession_def split: settled.splits if_splits)
  next
    case (6 c v s')
    with g Cons show ?thesis
      unfolding calls_inv_def
      by (auto simp: tick_def continuations_def resume_endClose_def
          settle_endSession_def)
  qed
qed

lemma calls_inv_step: "calls_inv s \<Longrightarrow> calls_inv (step e s)"
  by (cases e) (simp_all add: calls_inv_startSession calls_inv_endSession calls_inv_unmounted
      calls_inv_settleStart calls_inv_settleClose calls_inv_tick)

lemma reachable_calls_inv: "reachable s \<Longrightarrow> calls_inv s"
  by (induction rule: reachable.induct) (simp_all add: calls_inv_init calls_inv_step)

section \<open>Errors come from the library\<close>

lemma library_rejected_mono:
  assumes "library_rejected e s"
    and "started s \<le> started s'" and "closing s \<le> closing s'"
    and "\<And>p x. start_settled s p = Some x \<Longrightarrow> start_settled s' p = Some x"
    and "\<And>q x. close_settled s q = Some x \<Longrightarrow> close_settled s' q = Some x"
  shows "library_rejected e s'"
  using assms unfolding library_rejected_def
  by (meson less_le_trans)

lemma library_rejected_resume: "library_rejected e s \<Longrightarrow> library_rejected e (resume j s)"
  by (cases "(j, s)" rule: resume.cases)
     (auto simp: library_rejected_def op_defs Let_def less_Suc_eq split: option.splits settled.splits)

lemma library_rejected_jobs [simp]: "library_rejected e (s\<lparr>jobs := js\<rparr>) = library_rejected e s"
  by (simp add: library_rejected_def)

lemma library_rejected_settleStart:
  "library_rejected e s \<Longrightarrow> library_rejected e (settleStart p v s)"
  by (erule library_rejected_mono) (auto simp: settleStart_def)

lemma library_rejected_settleClose:
  "library_rejected e s \<Longrightarrow> library_rejected e (settleClose q v s)"
  by (erule library_rejected_mono) (auto simp: settleClose_def)

lemma library_rejected_step: "library_rejected e s \<Longrightarrow> library_rejected e (step ev s)"
proof (cases ev)
  case Tick
  assume "library_rejected e s"
  then show ?thesis using Tick
    by (cases "jobs s") (simp_all add: tick_def library_rejected_resume)
qed (auto simp: library_rejected_settleStart library_rejected_settleClose,
     auto simp: library_rejected_def startSession_def endSession_def unmounted_def
      await_start_def await_close_def invoke_endSession_def
      settle_startSession_def Let_def less_Suc_eq split: option.splits)

lemma job_error_StartJob [simp]: "job_error (StartJob k v) = Some e \<longleftrightarrow> v = Rejected e"
  by (cases v) auto

lemma job_error_CloseJob [simp]: "job_error (CloseJob k v) = Some e \<longleftrightarrow> v = Rejected e"
  by (cases v) auto

lemma start_rejected:
  "fresh_ids s \<Longrightarrow> start_settled s p = Some (Rejected e) \<Longrightarrow> library_rejected e s"
  unfolding fresh_ids_def library_rejected_def
  by (metis not_le option.distinct(1))

lemma close_rejected:
  "fresh_ids s \<Longrightarrow> close_settled s q = Some (Rejected e) \<Longrightarrow> library_rejected e s"
  unfolding fresh_ids_def library_rejected_def
  by (metis not_le option.distinct(1))

lemma settleStart_rejected:
  "p < started s \<Longrightarrow> start_settled s p = None \<Longrightarrow> library_rejected e (settleStart p (Rejected e) s)"
  by (auto simp: library_rejected_def settleStart_def intro!: exI [of _ p])

lemma settleClose_rejected:
  "q < closing s \<Longrightarrow> close_settled s q = None \<Longrightarrow> library_rejected e (settleClose q (Rejected e) s)"
  by (auto simp: library_rejected_def settleClose_def intro!: exI [of _ q])

lemma job_values_inv_init: "job_values_inv (init d m v)"
  by (simp add: job_values_inv_def init_def)

lemma job_values_inv_I:
  assumes "job_values_inv s"
    and "\<And>e. library_rejected e s \<Longrightarrow> library_rejected e s'"
    and "\<And>j e. j \<in> set (jobs s') \<Longrightarrow> j \<notin> set (jobs s) \<Longrightarrow> job_error j = Some e \<Longrightarrow> library_rejected e s'"
  shows "job_values_inv s'"
  using assms unfolding job_values_inv_def by blast

lemma new_job_resume:
  assumes f: "fresh_ids s" and n: "j \<in> set (jobs (resume j0 s))" "j \<notin> set (jobs s)"
    and je: "job_error j = Some e"
  shows "library_rejected e s"
  using n je
  by (cases "(j0, s)" rule: resume.cases)
     (auto simp: op_defs applyControlled_eq Let_def split: settled.splits option.splits if_splits
       dest!: close_rejected [OF f])

lemma job_values_inv_step:
  assumes f: "fresh_ids s" and i: "job_values_inv s"
  shows "job_values_inv (step ev s)"
proof (rule job_values_inv_I [OF i library_rejected_step])
  fix j e
  assume n: "j \<in> set (jobs (step ev s))" "j \<notin> set (jobs s)" and je: "job_error j = Some e"
  show "library_rejected e (step ev s)"
  proof (cases ev)
    case (CallStartSession options isOpen)
    have "library_rejected e s"
      using n je unfolding CallStartSession
      by (auto simp: startSession_def settle_startSession_def Let_def await_start_def
          split: option.splits if_splits dest!: start_rejected [OF f])
    then show ?thesis by (rule library_rejected_step)
  next
    case CallEndSession
    have "library_rejected e s"
      using n je unfolding CallEndSession
      by (auto simp: endSession_def Let_def await_start_def await_close_def invoke_endSession_def
          split: option.splits if_splits dest!: start_rejected [OF f] close_rejected [OF f])
    then show ?thesis by (rule library_rejected_step)
  next
    case Unmounted
    have "library_rejected e s"
      using n je unfolding Unmounted
      by (auto simp: unmounted_def Let_def await_start_def invoke_endSession_def
          split: option.splits if_splits dest!: start_rejected [OF f])
    then show ?thesis by (rule library_rejected_step)
  next
    case (SettleStart p v)
    with n je have "v = Rejected e \<and> p < started s \<and> start_settled s p = None"
      by (auto simp: settleStart_def split: if_splits)
    with SettleStart show ?thesis by (simp add: settleStart_rejected)
  next
    case (SettleClose q v)
    with n je have "v = Rejected e \<and> q < closing s \<and> close_settled s q = None"
      by (auto simp: settleClose_def split: if_splits)
    with SettleClose show ?thesis by (simp add: settleClose_rejected)
  next
    case Tick
    show ?thesis
    proof (cases "jobs s")
      case Nil
      with n Tick show ?thesis by (simp add: tick_def)
    next
      case (Cons j0 js)
      have f': "fresh_ids (s\<lparr>jobs := js\<rparr>)" using f by (simp add: fresh_ids_def)
      from n Cons Tick have "j \<in> set (jobs (resume j0 (s\<lparr>jobs := js\<rparr>)))"
        and "j \<notin> set (jobs (s\<lparr>jobs := js\<rparr>))"
        by (auto simp: tick_def)
      from new_job_resume [OF f' this je] have "library_rejected e s" by simp
      then show ?thesis by (rule library_rejected_step)
    qed
  qed
qed

lemma reachable_job_values_inv: "reachable s \<Longrightarrow> job_values_inv s"
  by (induction rule: reachable.induct)
     (simp_all add: job_values_inv_init job_values_inv_step reachable_fresh_ids)

section \<open>A cancelled call stays cancelled\<close>

lemma filter_pos: "x \<in> set xs \<Longrightarrow> P x \<Longrightarrow> 0 < length (filter P xs)"
  by (induction xs) auto

lemma filter_zero: "length (filter P xs) = 0 \<longleftrightarrow> (\<forall>x \<in> set xs. \<not> P x)"
  by (induction xs) auto

lemma awaiting_start_primaries: "awaiting_start c s \<Longrightarrow> 0 < primaries s"
  unfolding awaiting_start_def primaries_def
proof (elim disjE)
  assume "Primary c \<in> snd ` set (start_waiters s)"
  then obtain w where "w \<in> set (start_waiters s)" "is_primary (snd w)" by force
  then show "0 < length (filter (\<lambda>w. is_primary (snd w)) (start_waiters s))
      + length (filter primary_job (jobs s))"
    using filter_pos [of w "start_waiters s" "\<lambda>w. is_primary (snd w)"] by simp
next
  assume "Some (Primary c) \<in> job_start_cont ` set (jobs s)"
  then obtain j where j: "j \<in> set (jobs s)" "job_start_cont j = Some (Primary c)" by force
  from j(2) have "primary_job j" by (cases j) auto
  with j show "0 < length (filter (\<lambda>w. is_primary (snd w)) (start_waiters s))
      + length (filter primary_job (jobs s))"
    using filter_pos [of j "jobs s" primary_job] by simp
qed

lemma awaiting_close_cancels: "awaiting_close c s \<Longrightarrow> 0 < cancels s"
  unfolding awaiting_close_def cancels_def
proof (elim disjE)
  assume "Cancelled c \<in> snd ` set (close_waiters s)"
  then obtain w where "w \<in> set (close_waiters s)" "is_cancelled (snd w)" by force
  then show "0 < length (filter (\<lambda>w. is_cancelled (snd w)) (close_waiters s))
      + length (filter cancelled_job (jobs s))"
    using filter_pos [of w "close_waiters s" "\<lambda>w. is_cancelled (snd w)"] by simp
next
  assume "Some (Cancelled c) \<in> job_close_cont ` set (jobs s)"
  then obtain j where j: "j \<in> set (jobs s)" "job_close_cont j = Some (Cancelled c)" by force
  from j(2) have "cancelled_job j" by (cases j) auto
  with j show "0 < length (filter (\<lambda>w. is_cancelled (snd w)) (close_waiters s))
      + length (filter cancelled_job (jobs s))"
    using filter_pos [of j "jobs s" cancelled_job] by simp
qed

lemma awaiting_start_continuations: "awaiting_start c s \<Longrightarrow> 0 < continuations c s"
  unfolding awaiting_start_def continuations_def
proof (elim disjE)
  assume "Primary c \<in> snd ` set (start_waiters s)"
  then obtain w where "w \<in> set (start_waiters s)" "start_owner (snd w) = Some c" by force
  then show "0 < length (filter (\<lambda>w. start_owner (snd w) = Some c) (start_waiters s))
     + length (filter (\<lambda>w. close_owner (snd w) = Some c) (close_waiters s))
     + length (filter (\<lambda>j. job_owner j = Some c) (jobs s))"
    using filter_pos [of w "start_waiters s" "\<lambda>w. start_owner (snd w) = Some c"] by simp
next
  assume "Some (Primary c) \<in> job_start_cont ` set (jobs s)"
  then obtain j where j: "j \<in> set (jobs s)" "job_start_cont j = Some (Primary c)" by force
  from j(2) have "job_owner j = Some c" by (cases j) auto
  with j show "0 < length (filter (\<lambda>w. start_owner (snd w) = Some c) (start_waiters s))
     + length (filter (\<lambda>w. close_owner (snd w) = Some c) (close_waiters s))
     + length (filter (\<lambda>j. job_owner j = Some c) (jobs s))"
    using filter_pos [of j "jobs s" "\<lambda>j. job_owner j = Some c"] by simp
qed

lemma awaiting_close_continuations: "awaiting_close c s \<Longrightarrow> 0 < continuations c s"
  unfolding awaiting_close_def continuations_def
proof (elim disjE)
  assume "Cancelled c \<in> snd ` set (close_waiters s)"
  then obtain w where "w \<in> set (close_waiters s)" "close_owner (snd w) = Some c" by force
  then show "0 < length (filter (\<lambda>w. start_owner (snd w) = Some c) (start_waiters s))
     + length (filter (\<lambda>w. close_owner (snd w) = Some c) (close_waiters s))
     + length (filter (\<lambda>j. job_owner j = Some c) (jobs s))"
    using filter_pos [of w "close_waiters s" "\<lambda>w. close_owner (snd w) = Some c"] by simp
next
  assume "Some (Cancelled c) \<in> job_close_cont ` set (jobs s)"
  then obtain j where j: "j \<in> set (jobs s)" "job_close_cont j = Some (Cancelled c)" by force
  from j(2) have "job_owner j = Some c" by (cases j) auto
  with j show "0 < length (filter (\<lambda>w. start_owner (snd w) = Some c) (start_waiters s))
     + length (filter (\<lambda>w. close_owner (snd w) = Some c) (close_waiters s))
     + length (filter (\<lambda>j. job_owner j = Some c) (jobs s))"
    using filter_pos [of j "jobs s" "\<lambda>j. job_owner j = Some c"] by simp
qed

text \<open>What the invariants say about a call with a pending continuation.\<close>

lemma pending_facts:
  assumes g: "guard_inv s" and k: "calls_inv s"
    and a: "awaiting_start c s \<or> awaiting_close c s"
  shows "lockRef s \<noteq> None" and "c < ncalls s" and "start_result s c = None"
proof -
  from a have "0 < primaries s + cancels s"
    using awaiting_start_primaries awaiting_close_cancels by fastforce
  with g show "lockRef s \<noteq> None" by (auto simp: guard_inv_def split: if_splits)
  from a have p: "0 < continuations c s"
    using awaiting_start_continuations awaiting_close_continuations by blast
  with k show "c < ncalls s" unfolding calls_inv_def by (metis not_le less_numeral_extra(3))
  from p k show "start_result s c = None" unfolding calls_inv_def by (metis less_numeral_extra(3))
qed

lemma settled_facts:
  assumes k: "calls_inv s" and a: "start_result s c \<noteq> None"
  shows "c < ncalls s"
  using assms unfolding calls_inv_def by (metis not_le)

lemma awaiting_start_mono:
  "awaiting_start c s \<Longrightarrow> set (start_waiters s) \<subseteq> set (start_waiters s') \<Longrightarrow>
   set (jobs s) \<subseteq> set (jobs s') \<Longrightarrow> awaiting_start c s'"
  unfolding awaiting_start_def by blast

lemma awaiting_close_mono:
  "awaiting_close c s \<Longrightarrow> set (close_waiters s) \<subseteq> set (close_waiters s') \<Longrightarrow>
   set (jobs s) \<subseteq> set (jobs s') \<Longrightarrow> awaiting_close c s'"
  unfolding awaiting_close_def by blast

lemma awaiting_start_settleStart:
  "awaiting_start c s \<Longrightarrow> awaiting_start c (settleStart p v s)"
  unfolding awaiting_start_def settleStart_def
  by (auto simp: image_iff) force+

lemma awaiting_close_settleStart:
  "awaiting_close c s \<Longrightarrow> awaiting_close c (settleStart p v s)"
  by (erule awaiting_close_mono) (auto simp: settleStart_def)

lemma awaiting_close_settleClose:
  "awaiting_close c s \<Longrightarrow> awaiting_close c (settleClose q v s)"
  unfolding awaiting_close_def settleClose_def
  by (auto simp: image_iff) force+

lemma awaiting_start_settleClose:
  "awaiting_start c s \<Longrightarrow> awaiting_start c (settleClose q v s)"
  by (erule awaiting_start_mono) (auto simp: settleClose_def)

text \<open>The shape of a proof that a step keeps \<open>cancelled_call\<close>.\<close>

lemma cancelled_call_I:
  assumes c: "cancelled_call c s"
    and r: "start_result s' c = start_result s c"
    and f: "shouldEndRef s \<Longrightarrow> awaiting_start c s \<Longrightarrow> shouldEndRef s'"
    and a: "awaiting_start c s \<Longrightarrow> awaiting_start c s'"
    and b: "awaiting_close c s \<Longrightarrow> awaiting_close c s'"
    and l: "\<And>e. library_rejected e s \<Longrightarrow> library_rejected e s'"
  shows "cancelled_call c s'"
  using c a b f l unfolding cancelled_call_def r
  by (auto split: option.splits settled.splits)

lemma cancelled_call_result:
  "cancelled_call c s \<Longrightarrow>
   awaiting_start c s \<or> awaiting_close c s \<or> start_result s c \<noteq> None"
  unfolding cancelled_call_def by (auto split: option.splits)

lemma cancelled_call_startSession:
  assumes g: "guard_inv s" and k: "calls_inv s" and c: "cancelled_call c s"
  shows "cancelled_call c (startSession options isOpen s)"
proof (rule cancelled_call_I [OF c])
  have n: "c < ncalls s"
    using cancelled_call_result [OF c] pending_facts(2) [OF g k, of c] settled_facts [OF k, of c]
    by blast
  then show "start_result (startSession options isOpen s) c = start_result s c"
    by (auto simp: startSession_def await_start_def settle_startSession_def Let_def
        split: option.splits)
  show "awaiting_start c (startSession options isOpen s)" if "awaiting_start c s"
    by (rule awaiting_start_mono [OF that])
       (auto simp: startSession_def await_start_def settle_startSession_def Let_def
        split: option.splits)
  show "awaiting_close c (startSession options isOpen s)" if "awaiting_close c s"
    by (rule awaiting_close_mono [OF that])
       (auto simp: startSession_def await_start_def settle_startSession_def Let_def
        split: option.splits)
  show "shouldEndRef (startSession options isOpen s)"
    if "shouldEndRef s" and "awaiting_start c s"
    using that pending_facts(1) [OF g k, of c]
    by (auto simp: startSession_def await_start_def settle_startSession_def Let_def
        split: option.splits)
  show "library_rejected e (startSession options isOpen s)" if "library_rejected e s" for e
    using library_rejected_step [OF that, of "CallStartSession options isOpen"] by simp
qed

lemma cancelled_call_endSession:
  assumes c: "cancelled_call c s"
  shows "cancelled_call c (endSession s)"
proof (rule cancelled_call_I [OF c])
  show "start_result (endSession s) c = start_result s c"
    by (auto simp: endSession_def await_start_def await_close_def invoke_endSession_def Let_def
        split: option.splits)
  show "awaiting_start c (endSession s)" if "awaiting_start c s"
    by (rule awaiting_start_mono [OF that])
       (auto simp: endSession_def await_start_def await_close_def invoke_endSession_def Let_def
        split: option.splits)
  show "awaiting_close c (endSession s)" if "awaiting_close c s"
    by (rule awaiting_close_mono [OF that])
       (auto simp: endSession_def await_start_def await_close_def invoke_endSession_def Let_def
        split: option.splits)
  show "shouldEndRef (endSession s)"
    by (auto simp: endSession_def await_start_def await_close_def invoke_endSession_def Let_def
        split: option.splits)
  show "library_rejected e (endSession s)" if "library_rejected e s" for e
    using library_rejected_step [OF that, of CallEndSession] by simp
qed

lemma cancelled_call_unmounted:
  assumes c: "cancelled_call c s"
  shows "cancelled_call c (unmounted s)"
proof (rule cancelled_call_I [OF c])
  show "start_result (unmounted s) c = start_result s c"
    by (auto simp: unmounted_def await_start_def invoke_endSession_def Let_def
        split: option.splits)
  show "awaiting_start c (unmounted s)" if "awaiting_start c s"
    by (rule awaiting_start_mono [OF that])
       (auto simp: unmounted_def await_start_def invoke_endSession_def Let_def
        split: option.splits)
  show "awaiting_close c (unmounted s)" if "awaiting_close c s"
    by (rule awaiting_close_mono [OF that])
       (auto simp: unmounted_def await_start_def invoke_endSession_def Let_def
        split: option.splits)
  show "shouldEndRef (unmounted s)"
    by (auto simp: unmounted_def await_start_def invoke_endSession_def Let_def
        split: option.splits)
  show "library_rejected e (unmounted s)" if "library_rejected e s" for e
    using library_rejected_step [OF that, of Unmounted] by simp
qed

lemma cancelled_call_settleStart:
  assumes c: "cancelled_call c s"
  shows "cancelled_call c (settleStart p v s)"
proof (rule cancelled_call_I [OF c])
  show "start_result (settleStart p v s) c = start_result s c"
    by (simp add: settleStart_def)
  show "shouldEndRef (settleStart p v s)" if "shouldEndRef s"
    using that by (simp add: settleStart_def)
qed (simp_all add: awaiting_start_settleStart awaiting_close_settleStart
      library_rejected_settleStart)

lemma cancelled_call_settleClose:
  assumes c: "cancelled_call c s"
  shows "cancelled_call c (settleClose q v s)"
proof (rule cancelled_call_I [OF c])
  show "start_result (settleClose q v s) c = start_result s c"
    by (simp add: settleClose_def)
  show "shouldEndRef (settleClose q v s)" if "shouldEndRef s"
    using that by (simp add: settleClose_def)
qed (simp_all add: awaiting_start_settleClose awaiting_close_settleClose
      library_rejected_settleClose)

lemma awaiting_start_iff:
  "awaiting_start c s \<longleftrightarrow>
     (\<exists>w \<in> set (start_waiters s). snd w = Primary c)
     \<or> (\<exists>j \<in> set (jobs s). job_start_cont j = Some (Primary c))"
  unfolding awaiting_start_def image_iff by metis

lemma awaiting_close_iff:
  "awaiting_close c s \<longleftrightarrow>
     (\<exists>w \<in> set (close_waiters s). snd w = Cancelled c)
     \<or> (\<exists>j \<in> set (jobs s). job_close_cont j = Some (Cancelled c))"
  unfolding awaiting_close_def image_iff by metis

lemma primary_job_iff: "job_start_cont j = Some (Primary c) \<Longrightarrow> primary_job j"
  by (cases j) auto

lemma cancelled_job_iff: "job_close_cont j = Some (Cancelled c) \<Longrightarrow> cancelled_job j"
  by (cases j) auto

lemma head_primary:
  assumes g: "guard_inv s" and j: "jobs s = StartJob (Primary c') v # js"
  shows "\<not> awaiting_close c s" and "awaiting_start c s \<Longrightarrow> c = c'"
    and "\<not> awaiting_start c (s\<lparr>jobs := js\<rparr>)"
proof -
  from g have "primaries s + cancels s \<le> 1" by (simp add: guard_inv_def split: if_splits)
  with j have z: "length (filter (\<lambda>w. is_primary (snd w)) (start_waiters s)) = 0"
    "length (filter primary_job js) = 0"
    "length (filter (\<lambda>w. is_cancelled (snd w)) (close_waiters s)) = 0"
    "length (filter cancelled_job js) = 0"
    by (simp_all add: primaries_def cancels_def)
  note n = z [unfolded filter_zero]
  show "\<not> awaiting_close c s"
    unfolding awaiting_close_iff j using n(3,4) cancelled_job_iff by fastforce
  have a: "\<not> awaiting_start c (s\<lparr>jobs := js\<rparr>)" for c
    unfolding awaiting_start_iff using n(1,2) primary_job_iff by fastforce
  then show "\<not> awaiting_start c (s\<lparr>jobs := js\<rparr>)" .
  show "c = c'" if "awaiting_start c s"
    using that a [of c] unfolding awaiting_start_iff j by auto
qed

lemma head_cancelled:
  assumes g: "guard_inv s" and j: "jobs s = CloseJob (Cancelled c') v # js"
  shows "\<not> awaiting_start c s" and "awaiting_close c s \<Longrightarrow> c = c'"
proof -
  from g have "primaries s + cancels s \<le> 1" by (simp add: guard_inv_def split: if_splits)
  with j have z: "length (filter (\<lambda>w. is_primary (snd w)) (start_waiters s)) = 0"
    "length (filter primary_job js) = 0"
    "length (filter (\<lambda>w. is_cancelled (snd w)) (close_waiters s)) = 0"
    "length (filter cancelled_job js) = 0"
    by (simp_all add: primaries_def cancels_def)
  note n = z [unfolded filter_zero]
  show "\<not> awaiting_start c s"
    unfolding awaiting_start_iff j using n(1,2) primary_job_iff by fastforce
  have a: "\<not> awaiting_close c (s\<lparr>jobs := js\<rparr>)" for c
    unfolding awaiting_close_iff using n(3,4) cancelled_job_iff by fastforce
  show "c = c'" if "awaiting_close c s"
    using that a [of c] unfolding awaiting_close_iff j by auto
qed

lemma head_owner:
  assumes k: "calls_inv s" and j: "jobs s = j0 # js" and o: "job_owner j0 = Some c'"
  shows "start_result s c' = None"
    and "awaiting_start c (s\<lparr>jobs := js\<rparr>) \<or> awaiting_close c (s\<lparr>jobs := js\<rparr>) \<Longrightarrow> c \<noteq> c'"
proof -
  have e: "continuations c' s = Suc (continuations c' (s\<lparr>jobs := js\<rparr>))"
    using j o by (simp add: continuations_def)
  from k have le: "continuations c' s \<le> 1" and r: "start_result s c' \<noteq> None \<Longrightarrow> continuations c' s = 0"
    unfolding calls_inv_def by blast+
  from e r show "start_result s c' = None" by fastforce
  show "c \<noteq> c'" if "awaiting_start c (s\<lparr>jobs := js\<rparr>) \<or> awaiting_close c (s\<lparr>jobs := js\<rparr>)"
  proof
    assume "c = c'"
    with that have "0 < continuations c' (s\<lparr>jobs := js\<rparr>)"
      using awaiting_start_continuations awaiting_close_continuations by blast
    with e le show False by simp
  qed
qed

lemma awaiting_tail:
  assumes j: "jobs s = j0 # js"
  shows "awaiting_start c s \<Longrightarrow> job_start_cont j0 \<noteq> Some (Primary c) \<Longrightarrow>
         awaiting_start c (s\<lparr>jobs := js\<rparr>)"
    and "awaiting_close c s \<Longrightarrow> job_close_cont j0 \<noteq> Some (Cancelled c) \<Longrightarrow>
         awaiting_close c (s\<lparr>jobs := js\<rparr>)"
  unfolding awaiting_start_iff awaiting_close_iff j by auto

lemma cancelled_call_jobs:
  assumes c: "cancelled_call c s" and j: "jobs s = j0 # js"
    and p: "job_start_cont j0 \<noteq> Some (Primary c)" and q: "job_close_cont j0 \<noteq> Some (Cancelled c)"
  shows "cancelled_call c (s\<lparr>jobs := js\<rparr>)"
  using c awaiting_tail [OF j, of c] p q unfolding cancelled_call_def
  by (auto split: option.splits settled.splits)

lemma awaiting_close_await_close:
  "awaiting_close c (await_close q (Cancelled c) s)"
  unfolding awaiting_close_iff by (auto simp: await_close_def split: option.splits)

lemma cancelled_call_primary:
  assumes g: "guard_inv s" and k: "calls_inv s" and v: "job_values_inv s"
    and j: "jobs s = StartJob (Primary c') x # js" and c: "cancelled_call c s"
  shows "cancelled_call c (resume_primary c' x (s\<lparr>jobs := js\<rparr>))"
proof (cases "start_result s c")
  case None
  with c head_primary(1) [OF g j, of c] have a: "awaiting_start c s" and f: "shouldEndRef s"
    by (auto simp: cancelled_call_def)
  from head_primary(2) [OF g j a] have cc: "c = c'" .
  show ?thesis
  proof (cases x)
    case (Rejected e)
    from v j Rejected have "library_rejected e s" by (simp add: job_values_inv_def)
    then show ?thesis
      using Rejected cc
      by (simp add: cancelled_call_def resume_primary_def finally_startSession_def
          settle_startSession_def library_rejected_def)
  next
    case (Fulfilled conv)
    have r: "start_result (resume_primary c' x (s\<lparr>jobs := js\<rparr>)) c = None"
      using Fulfilled f None
      by (simp add: resume_primary_def await_close_def invoke_endSession_def Let_def
          split: option.splits)
    have "awaiting_close c (resume_primary c' x (s\<lparr>jobs := js\<rparr>))"
      using Fulfilled f cc by (simp add: resume_primary_def Let_def awaiting_close_await_close)
    with r show ?thesis by (simp add: cancelled_call_def)
  qed
next
  case (Some y)
  with head_owner(1) [OF k j, of c'] have ne: "c \<noteq> c'" by auto
  have r: "start_result (resume_primary c' x (s\<lparr>jobs := js\<rparr>)) c = start_result s c"
    using ne
    by (auto simp: resume_primary_def finally_startSession_def settle_startSession_def
        applyControlled_eq await_close_def invoke_endSession_def Let_def
        split: settled.splits option.splits)
  have l: "library_rejected e (resume_primary c' x (s\<lparr>jobs := js\<rparr>))" if "library_rejected e s" for e
    using library_rejected_resume [of e "s\<lparr>jobs := js\<rparr>" "StartJob (Primary c') x"] that by simp
  from c Some l show ?thesis unfolding cancelled_call_def r
    by (auto split: settled.splits)
qed

lemma cancelled_call_cancelled:
  assumes g: "guard_inv s" and k: "calls_inv s" and v: "job_values_inv s"
    and j: "jobs s = CloseJob (Cancelled c') x # js" and c: "cancelled_call c s"
  shows "cancelled_call c (resume_cancelled c' x (s\<lparr>jobs := js\<rparr>))"
proof (cases "start_result s c")
  case None
  with c head_cancelled(1) [OF g j, of c] have a: "awaiting_close c s"
    by (auto simp: cancelled_call_def)
  from head_cancelled(2) [OF g j a] have cc: "c = c'" .
  show ?thesis
  proof (cases x)
    case (Rejected e)
    from v j Rejected have "library_rejected e s" by (simp add: job_values_inv_def)
    then show ?thesis
      using Rejected cc
      by (simp add: cancelled_call_def resume_cancelled_def finally_startSession_def
          settle_startSession_def library_rejected_def)
  next
    case (Fulfilled u)
    then show ?thesis
      using cc
      by (simp add: cancelled_call_def resume_cancelled_def finally_startSession_def
          settle_startSession_def)
  qed
next
  case (Some y)
  with head_owner(1) [OF k j, of c'] have ne: "c \<noteq> c'" by auto
  have r: "start_result (resume_cancelled c' x (s\<lparr>jobs := js\<rparr>)) c = start_result s c"
    using ne
    by (auto simp: resume_cancelled_def finally_startSession_def settle_startSession_def
        split: settled.splits)
  have l: "library_rejected e (resume_cancelled c' x (s\<lparr>jobs := js\<rparr>))" if "library_rejected e s" for e
    using library_rejected_resume [of e "s\<lparr>jobs := js\<rparr>" "CloseJob (Cancelled c') x"] that by simp
  from c Some l show ?thesis unfolding cancelled_call_def r
    by (auto split: settled.splits)
qed

lemma cancelled_call_join:
  assumes k: "calls_inv s"
    and j: "jobs s = StartJob (Join c') x # js" and c: "cancelled_call c s"
  shows "cancelled_call c (resume_join c' x (s\<lparr>jobs := js\<rparr>))"
proof -
  have c0: "cancelled_call c (s\<lparr>jobs := js\<rparr>)"
    by (rule cancelled_call_jobs [OF c j]) simp_all
  have o: "job_owner (StartJob (Join c') x) = Some c'" by simp
  have ne: "c \<noteq> c'"
    using cancelled_call_result [OF c0] head_owner(1) [OF k j o] head_owner(2) [OF k j o, of c]
    by auto
  show ?thesis
  proof (rule cancelled_call_I [OF c0])
    show "start_result (resume_join c' x (s\<lparr>jobs := js\<rparr>)) c = start_result (s\<lparr>jobs := js\<rparr>) c"
      using ne by (auto simp: resume_join_def settle_startSession_def split: settled.splits)
    show "library_rejected e (resume_join c' x (s\<lparr>jobs := js\<rparr>))"
      if "library_rejected e (s\<lparr>jobs := js\<rparr>)" for e
      using library_rejected_resume [of e "s\<lparr>jobs := js\<rparr>" "StartJob (Join c') x"] that by simp
  qed (auto simp: resume_join_def settle_startSession_def awaiting_start_def awaiting_close_def
        split: settled.splits)
qed

lemma cancelled_call_endPending:
  assumes j: "jobs s = StartJob (EndPending c') x # js" and c: "cancelled_call c s"
  shows "cancelled_call c (resume_endPending c' x (s\<lparr>jobs := js\<rparr>))"
proof -
  have c0: "cancelled_call c (s\<lparr>jobs := js\<rparr>)"
    by (rule cancelled_call_jobs [OF c j]) simp_all
  show ?thesis
  proof (rule cancelled_call_I [OF c0])
    show "library_rejected e (resume_endPending c' x (s\<lparr>jobs := js\<rparr>))"
      if "library_rejected e (s\<lparr>jobs := js\<rparr>)" for e
      using library_rejected_resume [of e "s\<lparr>jobs := js\<rparr>" "StartJob (EndPending c') x"] that
      by simp
  qed (auto simp: resume_endPending_def settle_endSession_def await_close_def
        invoke_endSession_def awaiting_start_def awaiting_close_def
        split: settled.splits option.splits)
qed

lemma cancelled_call_unmountThen:
  assumes j: "jobs s = StartJob UnmountThen x # js" and c: "cancelled_call c s"
  shows "cancelled_call c (resume_unmountThen x (s\<lparr>jobs := js\<rparr>))"
proof -
  have c0: "cancelled_call c (s\<lparr>jobs := js\<rparr>)"
    by (rule cancelled_call_jobs [OF c j]) simp_all
  show ?thesis
  proof (rule cancelled_call_I [OF c0])
    show "library_rejected e (resume_unmountThen x (s\<lparr>jobs := js\<rparr>))"
      if "library_rejected e (s\<lparr>jobs := js\<rparr>)" for e
      using library_rejected_resume [of e "s\<lparr>jobs := js\<rparr>" "StartJob UnmountThen x"] that
      by simp
  qed (auto simp: resume_unmountThen_def invoke_endSession_def awaiting_start_def
        awaiting_close_def split: settled.splits)
qed

lemma cancelled_call_endClose:
  assumes j: "jobs s = CloseJob (EndClose c') x # js" and c: "cancelled_call c s"
  shows "cancelled_call c (resume_endClose c' x (s\<lparr>jobs := js\<rparr>))"
proof -
  have c0: "cancelled_call c (s\<lparr>jobs := js\<rparr>)"
    by (rule cancelled_call_jobs [OF c j]) simp_all
  show ?thesis
  proof (rule cancelled_call_I [OF c0])
    show "library_rejected e (resume_endClose c' x (s\<lparr>jobs := js\<rparr>))"
      if "library_rejected e (s\<lparr>jobs := js\<rparr>)" for e
      using that by (simp add: resume_endClose_def settle_endSession_def library_rejected_def)
  qed (auto simp: resume_endClose_def settle_endSession_def awaiting_start_def awaiting_close_def)
qed

lemma cancelled_call_tick:
  assumes g: "guard_inv s" and k: "calls_inv s" and v: "job_values_inv s"
    and c: "cancelled_call c s"
  shows "cancelled_call c (tick s)"
proof (cases "jobs s")
  case Nil
  with c show ?thesis by (simp add: tick_def)
next
  case (Cons j js)
  show ?thesis
  proof (cases j)
    case (StartJob k' x)
    with Cons g k v c show ?thesis
      by (cases k') (simp_all add: tick_def cancelled_call_primary cancelled_call_join
          cancelled_call_endPending cancelled_call_unmountThen)
  next
    case (CloseJob k' x)
    with Cons g k v c show ?thesis
      by (cases k') (simp_all add: tick_def cancelled_call_cancelled cancelled_call_endClose)
  qed
qed

lemma cancelled_call_step:
  assumes "guard_inv s" and "calls_inv s" and "job_values_inv s" and "cancelled_call c s"
  shows "cancelled_call c (step ev s)"
  using assms
  by (cases ev) (simp_all add: cancelled_call_startSession cancelled_call_endSession
      cancelled_call_unmounted cancelled_call_settleStart cancelled_call_settleClose
      cancelled_call_tick)

lemma cancelled_call_run:
  "reachable s \<Longrightarrow> cancelled_call c s \<Longrightarrow> cancelled_call c (run evs s)"
proof (induction evs arbitrary: s)
  case Nil
  then show ?case by simp
next
  case (Cons ev evs)
  from Cons.prems have "cancelled_call c (step ev s)"
    by (simp add: cancelled_call_step reachable_guard_inv reachable_calls_inv
        reachable_job_values_inv)
  with Cons.IH [of "step ev s"] Cons.prems(1) show ?case
    by (simp add: reachable_step)
qed

lemma endSession_cancels_call:
  assumes r: "reachable s" and a: "awaiting_start c s"
  shows "cancelled_call c (endSession s)"
proof -
  have n: "start_result s c = None"
    using pending_facts(3) [OF reachable_guard_inv [OF r] reachable_calls_inv [OF r]] a by blast
  have 1: "start_result (endSession s) c = None"
    using n by (auto simp: endSession_def await_start_def await_close_def invoke_endSession_def
        Let_def split: option.splits)
  have 2: "awaiting_start c (endSession s)"
    by (rule awaiting_start_mono [OF a])
       (auto simp: endSession_def await_start_def await_close_def invoke_endSession_def Let_def
        split: option.splits)
  have 3: "shouldEndRef (endSession s)"
    by (auto simp: endSession_def await_start_def await_close_def invoke_endSession_def Let_def
        split: option.splits)
  from 1 2 3 show ?thesis by (simp add: cancelled_call_def)
qed

lemma cancel_close_rejected_state:
  assumes r: "reachable s" and i: "idle s" and o: "conversationRef s = None \<or> \<not> isOpen"
  shows "run (cancel_close_rejected options isOpen conv e s) s =
    s\<lparr>conversationRef := Some conv, lockRef := None, shouldEndRef := True,
      started := Suc (started s),
      start_settled := (start_settled s)(started s \<mapsto> Fulfilled conv),
      closing := Suc (Suc (closing s)),
      close_settled := (close_settled s)(closing s \<mapsto> Rejected e, Suc (closing s) \<mapsto> Fulfilled ()),
      calls := calls s @ [StartSession (resolvedOptions (defaultOptions s) options),
                          EndSession conv, EndSession conv],
      ncalls := Suc (Suc (ncalls s)),
      start_result := (start_result s)(ncalls s \<mapsto> Rejected e),
      end_result := (end_result s)(Suc (ncalls s) \<mapsto> Fulfilled ())\<rparr>"
proof -
  have f: "fresh_ids s" by (rule reachable_fresh_ids [OF r])
  from i have l: "lockRef s = None" and j: "jobs s = []" by (simp_all add: idle_def)
  note fr = filter_fresh_close [OF f] fresh_unsettled(2) [OF f]
  define q c where "q = closing s" and "c = ncalls s"
  define s4 where "s4 = run (cancel_window options isOpen conv s) s"
  note w = cancel_window_state [OF r i o, of options conv, folded s4_def]
  define s5 where "s5 = s4\<lparr>close_settled := (close_settled s)(q \<mapsto> Rejected e),
      jobs := [StartJob (EndPending (Suc c)) (Fulfilled conv), CloseJob (Cancelled c) (Rejected e)],
      close_waiters := close_waiters s\<rparr>"
  define s6 where "s6 = s5\<lparr>jobs := [CloseJob (Cancelled c) (Rejected e)],
      closing := Suc (Suc q), calls := calls s5 @ [EndSession conv],
      close_waiters := close_waiters s @ [(Suc q, EndClose (Suc c))]\<rparr>"
  define s7 where "s7 = s6\<lparr>close_settled := (close_settled s5)(Suc q \<mapsto> Fulfilled ()),
      jobs := [CloseJob (Cancelled c) (Rejected e), CloseJob (EndClose (Suc c)) (Fulfilled ())],
      close_waiters := close_waiters s\<rparr>"
  define s8 where "s8 = s7\<lparr>jobs := [CloseJob (EndClose (Suc c)) (Fulfilled ())],
      lockRef := None, start_result := (start_result s)(c \<mapsto> Rejected e)\<rparr>"
  define s9 where "s9 = s8\<lparr>jobs := [], end_result := (end_result s)(Suc c \<mapsto> Fulfilled ())\<rparr>"
  have 5: "step (SettleClose q (Rejected e)) s4 = s5"
    using fr(3) [of "closing s"] fr(1,2) [of "closing s"]
    by (simp add: s5_def w q_def c_def settleClose_def)
  have 6: "step Tick s5 = s6"
    using fr(3) [of "Suc (closing s)"]
    by (simp add: s6_def s5_def w q_def c_def tick_def resume_endPending_def
        await_close_def invoke_endSession_def Let_def)
  have 7: "step (SettleClose (Suc q) (Fulfilled ())) s6 = s7"
    using fr(3) [of "Suc (closing s)"] fr(1,2) [of "Suc (closing s)"]
    by (simp add: s7_def s6_def s5_def w q_def settleClose_def)
  have 8: "step Tick s7 = s8"
    by (simp add: s8_def s7_def s6_def s5_def w c_def tick_def
        resume_cancelled_def finally_startSession_def settle_startSession_def)
  have 9: "step Tick s8 = s9"
    by (simp add: s9_def s8_def s7_def s6_def s5_def w c_def tick_def
        resume_endClose_def settle_endSession_def)
  have "cancel_close_rejected options isOpen conv e s
      = cancel_window options isOpen conv s
        @ [SettleClose q (Rejected e), Tick, SettleClose (Suc q) (Fulfilled ()), Tick, Tick]"
    by (simp add: cancel_close_rejected_def cancel_window_def q_def)
  then have "run (cancel_close_rejected options isOpen conv e s) s = s9"
    by (simp only: run_append run.simps s4_def [symmetric] 5 6 7 8 9)
  also have "s9 = s\<lparr>conversationRef := Some conv, lockRef := None, shouldEndRef := True,
      started := Suc (started s),
      start_settled := (start_settled s)(started s \<mapsto> Fulfilled conv),
      closing := Suc (Suc (closing s)),
      close_settled := (close_settled s)(closing s \<mapsto> Rejected e, Suc (closing s) \<mapsto> Fulfilled ()),
      calls := calls s @ [StartSession (resolvedOptions (defaultOptions s) options),
                          EndSession conv, EndSession conv],
      ncalls := Suc (Suc (ncalls s)),
      start_result := (start_result s)(ncalls s \<mapsto> Rejected e),
      end_result := (end_result s)(Suc (ncalls s) \<mapsto> Fulfilled ())\<rparr>"
    using j by (simp add: s9_def s8_def s7_def s6_def s5_def w q_def c_def)
  finally show ?thesis .
qed

lemma cancelled_call_not_fulfilled:
  "cancelled_call c s \<Longrightarrow> start_result s c \<noteq> Some (Fulfilled x)"
  by (auto simp: cancelled_call_def)

lemma cancelled_call_error:
  "cancelled_call c s \<Longrightarrow> start_result s c = Some (Rejected e) \<Longrightarrow>
   e = Error ''Session cancelled during connection'' None \<or> library_rejected e s"
  by (auto simp: cancelled_call_def)

lemma shouldEndRef_endSession: "shouldEndRef (endSession s)"
  by (simp add: endSession_def await_start_def await_close_def invoke_endSession_def Let_def
      split: option.splits)

lemma started_test:
  "startSession None False useConversation_test
   = useConversation_test\<lparr>lockRef := Some 0, started := Suc 0,
       start_waiters := [(0, Primary 0)],
       calls := [StartSession (resolvedOptions (defaultOptions useConversation_test) None)],
       ncalls := Suc 0\<rparr>"
  by (simp add: startSession_def await_start_def useConversation_test_def init_def Let_def)

lemma reachable_started: "reachable (startSession None False useConversation_test)"
  using reachable_step [OF reachable_test, of "CallStartSession None False"] by simp

lemma awaiting_started: "awaiting_start 0 (startSession None False useConversation_test)"
  by (simp add: started_test awaiting_start_def)

section \<open>Cancellation while connecting\<close>

text \<open>
  Claim C1 as stated fails: when \<^verbatim>\<open>endSession()\<close> of the new conversation rejects, the
  cancelled \<^verbatim>\<open>startSession\<close> rejects with that error, not with "Session cancelled during
  connection", and the conversation stays in the slot.
\<close>

theorem cancelled_close_rejected_counterexample:
  "start_result
     (run (cancel_close_rejected None False (Conversation ''first-id'') (Error ''close failed'' None)
             useConversation_test) useConversation_test) 0
     = Some (Rejected (Error ''close failed'' None))
   \<and> conversationRef
     (run (cancel_close_rejected None False (Conversation ''first-id'') (Error ''close failed'' None)
             useConversation_test) useConversation_test)
     = Some (Conversation ''first-id'')"
  by (simp add: cancel_close_rejected_state [OF reachable_test idle_test] test_fields)

text \<open>
  Claim C1, amended.  \<^verbatim>\<open>endSession()\<close> is called in a reachable state \<open>s\<close> in which call
  \<open>c\<close> of \<^verbatim>\<open>startSession\<close> waits for its start call.  Then, whatever events \<open>evs\<close> follow,
  call \<open>c\<close> stays cancelled: its promise is never fulfilled, and if it is rejected, then
  with "Session cancelled during connection" unless the library rejected a promise with
  that error.  In any state \<open>t\<close> with the flag set, the continuation that receives the
  conversation invokes \<^verbatim>\<open>endSession\<close> of it and waits for that close without settling
  anything; and when the close resolves, the next continuation rejects the call with
  "Session cancelled during connection" and leaves \<open>conversationRef\<close> and \<open>lockRef\<close> empty.
  In the schedule of the test, started in any reachable state \<open>s0\<close> with no acquisition in
  flight, all of this happens: the call is rejected with that error, \<^verbatim>\<open>endSession\<close> of
  \<open>conv\<close> has been invoked, and slot and \<open>lockRef\<close> are empty.
\<close>

theorem cancelled_startSession_rejects:
  assumes r: "reachable s" and a: "awaiting_start c s"
  shows "cancelled_call c (run evs (endSession s))
     \<and> start_result (run evs (endSession s)) c \<noteq> Some (Fulfilled x)
     \<and> (start_result (run evs (endSession s)) c = Some (Rejected e) \<longrightarrow>
          e = Error ''Session cancelled during connection'' None
          \<or> library_rejected e (run evs (endSession s)))
     \<and> (shouldEndRef t \<longrightarrow>
          calls (resume_primary c (Fulfilled conv) t) = calls t @ [EndSession conv]
          \<and> awaiting_close c (resume_primary c (Fulfilled conv) t)
          \<and> start_result (resume_primary c (Fulfilled conv) t) = start_result t)
     \<and> start_result (resume_cancelled c (Fulfilled ()) t) c
          = Some (Rejected (Error ''Session cancelled during connection'' None))
     \<and> conversationRef (resume_cancelled c (Fulfilled ()) t) = None
     \<and> lockRef (resume_cancelled c (Fulfilled ()) t) = None
     \<and> (reachable s0 \<and> idle s0 \<and> (conversationRef s0 = None \<or> \<not> isOpen) \<longrightarrow>
          (let s' = run (cancel_during_connect options isOpen conv s0) s0 in
             start_result s' (ncalls s0)
               = Some (Rejected (Error ''Session cancelled during connection'' None))
             \<and> start_result s' (ncalls s0) \<noteq> Some (Fulfilled (getId conv))
             \<and> EndSession conv \<in> set (calls s')
             \<and> conversationRef s' = None
             \<and> lockRef s' = None))"
proof -
  have "reachable (endSession s)"
    using reachable_step [OF r, of CallEndSession] by simp
  from cancelled_call_run [OF this endSession_cancels_call [OF r a], of evs]
  have 1: "cancelled_call c (run evs (endSession s))" .
  note 2 = cancelled_call_not_fulfilled [OF 1, of x]
  have 3: "start_result (run evs (endSession s)) c = Some (Rejected e) \<longrightarrow>
          e = Error ''Session cancelled during connection'' None
          \<or> library_rejected e (run evs (endSession s))"
    using cancelled_call_error [OF 1, of e] by blast
  have 4: "shouldEndRef t \<longrightarrow>
          calls (resume_primary c (Fulfilled conv) t) = calls t @ [EndSession conv]
          \<and> awaiting_close c (resume_primary c (Fulfilled conv) t)
          \<and> start_result (resume_primary c (Fulfilled conv) t) = start_result t"
    by (auto simp: resume_primary_def Let_def awaiting_close_await_close)
       (auto simp: await_close_def invoke_endSession_def split: option.splits)
  have 5: "start_result (resume_cancelled c (Fulfilled ()) t) c
          = Some (Rejected (Error ''Session cancelled during connection'' None))"
    "conversationRef (resume_cancelled c (Fulfilled ()) t) = None"
    "lockRef (resume_cancelled c (Fulfilled ()) t) = None"
    by (simp_all add: resume_cancelled_def finally_startSession_def settle_startSession_def)
  have 6: "reachable s0 \<and> idle s0 \<and> (conversationRef s0 = None \<or> \<not> isOpen) \<longrightarrow>
          (let s' = run (cancel_during_connect options isOpen conv s0) s0 in
             start_result s' (ncalls s0)
               = Some (Rejected (Error ''Session cancelled during connection'' None))
             \<and> start_result s' (ncalls s0) \<noteq> Some (Fulfilled (getId conv))
             \<and> EndSession conv \<in> set (calls s')
             \<and> conversationRef s' = None
             \<and> lockRef s' = None)"
    by (auto simp: cancel_during_connect_state Let_def)
  from 1 2 3 4 5 6 show ?thesis by blast
qed

theorem cancelled_startSession_rejects_witness:
  "reachable (startSession None False useConversation_test)
   \<and> awaiting_start 0 (startSession None False useConversation_test)
   \<and> shouldEndRef (endSession (startSession None False useConversation_test))
   \<and> reachable useConversation_test \<and> idle useConversation_test
   \<and> (conversationRef useConversation_test = None \<or> \<not> False)
   \<and> cancelled_call 0
        (run (cancel_during_connect None False (Conversation ''test-id'') useConversation_test)
           useConversation_test)
   \<and> awaiting_close 0
        (resume_primary 0 (Fulfilled (Conversation ''test-id''))
           (endSession (startSession None False useConversation_test)))
   \<and> start_result
        (run (cancel_during_connect None False (Conversation ''test-id'') useConversation_test)
           useConversation_test) 0
       = Some (Rejected (Error ''Session cancelled during connection'' None))"
proof -
  have e: "run (cancel_during_connect None False (Conversation ''test-id'') useConversation_test)
             useConversation_test
           = run (drop 2 (cancel_during_connect None False (Conversation ''test-id'') useConversation_test))
               (endSession (startSession None False useConversation_test))"
    by (simp add: cancel_during_connect_def)
  from cancelled_startSession_rejects [OF reachable_started awaiting_started,
      of "drop 2 (cancel_during_connect None False (Conversation ''test-id'') useConversation_test)"
         _ _ "endSession (startSession None False useConversation_test)"
         "Conversation ''test-id''" useConversation_test False None]
  show ?thesis
    using reachable_started awaiting_started reachable_test idle_test
      shouldEndRef_endSession [of "startSession None False useConversation_test"]
    by (simp add: e test_fields Let_def)
qed

text \<open>
  Claim C2, evaluated where it fails.  A second \<^verbatim>\<open>startSession()\<close> joins the acquisition,
  then \<^verbatim>\<open>endSession()\<close> cancels it and the start call resolves.  The call that issued the
  start request is rejected, but the call that joined is fulfilled with \<open>''first-id''\<close>, the
  identifier of the conversation that is closed twice and never installed: the joining
  branch returns \<^verbatim>\<open>conversation.getId()\<close> without looking at \<open>shouldEndRef\<close>.
\<close>

theorem joined_caller_resolves:
  "let s' = run (join_then_cancel None False None False (Conversation ''first-id'')
                   useConversation_test) useConversation_test in
     start_result s' 0 = Some (Rejected (Error ''Session cancelled during connection'' None))
     \<and> start_result s' 1 = Some (Fulfilled ''first-id'')
     \<and> end_result s' 2 = Some (Fulfilled ())
     \<and> count_calls (EndSession (Conversation ''first-id'')) (calls s') = 2
     \<and> conversationRef s' = None"
  by (simp add: join_then_cancel_state [OF reachable_test idle_test] test_fields
      count_calls_def Let_def numeral_2_eq_2)

text \<open>
  Claim C3 as stated fails: in the scenario of the test, \<^verbatim>\<open>endSession\<close> of the conversation
  is invoked twice, not once.
\<close>

theorem close_once_counterexample:
  "count_calls (EndSession (Conversation ''first-id''))
     (calls (run (cancel_during_connect None False (Conversation ''first-id'') useConversation_test)
        useConversation_test)) = 2"
  by (simp add: cancel_during_connect_state [OF reachable_test idle_test] test_fields
      count_calls_def)

text \<open>
  Claim C3, amended.  In the cancellation scenario \<^verbatim>\<open>endSession\<close> of the resulting
  conversation is invoked exactly twice, and nothing else is called on it: first by the
  cancelled continuation of \<^verbatim>\<open>startSession\<close> (the calls made up to and including that
  continuation end with one \<open>EndSession conv\<close>), then by the continuation of \<^verbatim>\<open>endSession\<close>,
  which invokes it on whatever conversation the pending promise gave.
\<close>

theorem cancelled_conversation_closed_twice:
  assumes "reachable s" and "idle s" and "conversationRef s = None \<or> \<not> isOpen"
  shows "calls (run (cancel_during_connect options isOpen conv s) s)
           = calls s @ [StartSession (resolvedOptions (defaultOptions s) options),
                        EndSession conv, EndSession conv]
     \<and> calls (run (cancel_window options isOpen conv s) s)
           = calls s @ [StartSession (resolvedOptions (defaultOptions s) options),
                        EndSession conv]
     \<and> calls (resume_endPending c (Fulfilled conv) t) = calls t @ [EndSession conv]"
  by (simp add: cancel_during_connect_state [OF assms] cancel_window_state [OF assms]
      resume_endPending_def await_close_def invoke_endSession_def split: option.splits)

theorem cancelled_conversation_closed_twice_witness:
  "calls (run (cancel_during_connect None False (Conversation ''first-id'') useConversation_test)
        useConversation_test)
     = [StartSession \<lparr>origin = Some ''wss://api.elevenlabs.io'',
                      session_livekitUrl = Some ''wss://livekit.rtc.elevenlabs.io''\<rparr>,
        EndSession (Conversation ''first-id''), EndSession (Conversation ''first-id'')]"
  using cancelled_conversation_closed_twice [OF reachable_test idle_test, of False None "Conversation ''first-id''"]
  by (simp add: test_fields useConversation_test_def init_def resolvedOptions_def parseLocation_def
      or_else_def getOriginForLocation_def getLivekitUrlForLocation_def originMap_def
      livekitUrlMap_def)

section \<open>Starting twice\<close>

text \<open>
  Claim C4.  Two calls of \<^verbatim>\<open>startSession\<close> with no \<^verbatim>\<open>endSession\<close> between them, the first
  of which issues a start request that resolves to \<open>conv\<close>: whether the second call
  comes while the acquisition is in flight (it awaits the pending promise) or after the
  conversation is installed and reports itself open (it returns at once), both calls are
  fulfilled with the identifier of \<open>conv\<close>, exactly one \<open>StartSession\<close> call is made and
  exactly one start promise is created.
\<close>

theorem startSession_idempotent:
  assumes r: "reachable s" and i: "idle s"
    and o: "conversationRef s = None \<or> \<not> isOpen"
    and o': "conversationRef s = None \<or> \<not> isOpen'"
  shows "(let s' = run (start_twice options isOpen options' isOpen' conv s) s in
            start_result s' (ncalls s) = Some (Fulfilled (getId conv))
            \<and> start_result s' (Suc (ncalls s)) = Some (Fulfilled (getId conv))
            \<and> length (filter is_StartSession (drop (length (calls s)) (calls s'))) = 1
            \<and> started s' = Suc (started s))
       \<and> (let s' = run (acquire options isOpen (Fulfilled conv) s @ [CallStartSession options' True]) s in
            start_result s' (ncalls s) = Some (Fulfilled (getId conv))
            \<and> start_result s' (Suc (ncalls s)) = Some (Fulfilled (getId conv))
            \<and> length (filter is_StartSession (drop (length (calls s)) (calls s'))) = 1
            \<and> started s' = Suc (started s))"
proof -
  from o o' have oo: "conversationRef s = None \<or> (\<not> isOpen \<and> \<not> isOpen')" by blast
  have a: "let s' = run (start_twice options isOpen options' isOpen' conv s) s in
            start_result s' (ncalls s) = Some (Fulfilled (getId conv))
            \<and> start_result s' (Suc (ncalls s)) = Some (Fulfilled (getId conv))
            \<and> length (filter is_StartSession (drop (length (calls s)) (calls s'))) = 1
            \<and> started s' = Suc (started s)"
    by (simp add: start_twice_state [OF r i oo] Let_def)
  have b: "let s' = run (acquire options isOpen (Fulfilled conv) s @ [CallStartSession options' True]) s in
            start_result s' (ncalls s) = Some (Fulfilled (getId conv))
            \<and> start_result s' (Suc (ncalls s)) = Some (Fulfilled (getId conv))
            \<and> length (filter is_StartSession (drop (length (calls s)) (calls s'))) = 1
            \<and> started s' = Suc (started s)"
    by (simp add: run_append acquire_fulfilled_state [OF r i o] Let_def startSession_def
        settle_startSession_def)
  from a b show ?thesis by blast
qed

theorem startSession_idempotent_witness:
  "let s' = run (start_twice None False None False (Conversation ''test-id'') useConversation_test)
              useConversation_test;
       s'' = run (acquire None False (Fulfilled (Conversation ''test-id'')) useConversation_test
                  @ [CallStartSession None True]) useConversation_test in
     start_result s' 0 = Some (Fulfilled ''test-id'') \<and> start_result s' 1 = Some (Fulfilled ''test-id'')
     \<and> started s' = 1
     \<and> start_result s'' 0 = Some (Fulfilled ''test-id'') \<and> start_result s'' 1 = Some (Fulfilled ''test-id'')
     \<and> started s'' = 1"
  using startSession_idempotent [OF reachable_test idle_test, of False False None None "Conversation ''test-id''"]
  by (simp add: test_fields Let_def)

section \<open>The synchronous start of endSession\<close>




section \<open>The pending marker and the slot\<close>

text \<open>
  Claim C6 as stated fails: when a cancelled \<^verbatim>\<open>startSession\<close> has received its
  conversation and awaits \<^verbatim>\<open>endSession()\<close> of it, \<open>lockRef\<close> and \<open>conversationRef\<close> are both
  non-empty.
\<close>

theorem pending_implies_empty_slot_counterexample:
  "lockRef (run (cancel_window None False (Conversation ''first-id'') useConversation_test)
             useConversation_test) = Some 0
   \<and> conversationRef (run (cancel_window None False (Conversation ''first-id'') useConversation_test)
             useConversation_test) = Some (Conversation ''first-id'')"
  by (simp add: cancel_window_state [OF reachable_test idle_test] test_fields)

text \<open>
  Claim C6, amended.  In every reachable state where \<open>lockRef\<close> is non-empty and the slot
  holds a conversation, exactly one continuation of the \<^verbatim>\<open>startSession\<close> call that issued
  the start request exists, and it is suspended either still on the start promise or, with
  the cancellation flag set, on the close of the conversation in the slot, whose
  \<^verbatim>\<open>endSession\<close> has been invoked already.
\<close>

theorem pending_with_slot:
  assumes "reachable s" and "lockRef s = Some p" and "conversationRef s = Some conv"
  shows "(primaries s = 1 \<and> cancels s = 0)
     \<or> (primaries s = 0 \<and> cancels s = 1 \<and> shouldEndRef s \<and> EndSession conv \<in> set (calls s))"
  using reachable_guard_inv [OF assms(1)] assms(2,3)
  by (auto simp: guard_inv_def)

theorem pending_with_slot_witness:
  "reachable (run (cancel_window None False (Conversation ''first-id'') useConversation_test)
             useConversation_test)
   \<and> lockRef (run (cancel_window None False (Conversation ''first-id'') useConversation_test)
             useConversation_test) = Some 0
   \<and> conversationRef (run (cancel_window None False (Conversation ''first-id'') useConversation_test)
             useConversation_test) = Some (Conversation ''first-id'')
   \<and> cancels (run (cancel_window None False (Conversation ''first-id'') useConversation_test)
             useConversation_test) = 1
   \<and> shouldEndRef (run (cancel_window None False (Conversation ''first-id'') useConversation_test)
             useConversation_test)"
proof -
  let ?s = "run (cancel_window None False (Conversation ''first-id'') useConversation_test)
             useConversation_test"
  have r: "reachable ?s" by (rule reachable_run [OF reachable_test])
  have l: "lockRef ?s = Some 0" and c: "conversationRef ?s = Some (Conversation ''first-id'')"
    by (simp_all add: cancel_window_state [OF reachable_test idle_test] test_fields)
  have n: "primaries ?s = 0"
    by (simp add: cancel_window_state [OF reachable_test idle_test] test_fields primaries_def)
  from pending_with_slot [OF r l c] n r l c show ?thesis by simp
qed

section \<open>A start call that fails\<close>

text \<open>
  Claim C7 as stated fails: \<^verbatim>\<open>startSession\<close> rejects with the very error the start call
  rejected with, which has no cause and wraps nothing; and a conversation that was in the
  slot (reporting itself not open) is still there afterwards.
\<close>

theorem start_failure_counterexample:
  "start_result
     (run (acquire None False (Rejected (Error ''network down'' None)) useConversation_test)
        useConversation_test) 0
     = Some (Rejected (Error ''network down'' None))
   \<and> conversationRef
       (run (acquire None False (Rejected (Error ''network down'' None))
               (run (acquire None False (Fulfilled (Conversation ''first-id'')) useConversation_test)
                  useConversation_test))
          (run (acquire None False (Fulfilled (Conversation ''first-id'')) useConversation_test)
             useConversation_test))
     = Some (Conversation ''first-id'')"
proof -
  have a: "start_result
     (run (acquire None False (Rejected (Error ''network down'' None)) useConversation_test)
        useConversation_test) 0
     = Some (Rejected (Error ''network down'' None))"
    by (simp add: acquire_rejected_state [OF reachable_test idle_test] test_fields)
  have b: "conversationRef
       (run (acquire None False (Rejected (Error ''network down'' None))
               (run (acquire None False (Fulfilled (Conversation ''first-id'')) useConversation_test)
                  useConversation_test))
          (run (acquire None False (Fulfilled (Conversation ''first-id'')) useConversation_test)
             useConversation_test))
     = Some (Conversation ''first-id'')"
    by (simp add: acquire_rejected_state [OF reachable_acquired idle_acquired])
       (simp add: acquired_test)
  from a b show ?thesis by blast
qed

text \<open>
  Claim C7, amended.  When the start call rejects with \<open>e\<close>, \<^verbatim>\<open>startSession\<close> rejects with
  \<open>e\<close> itself, the slot is left as it was (so empty if it was empty), and \<open>lockRef\<close> is
  cleared; \<open>lockRef\<close> is cleared as well when the acquisition succeeds and when it is
  cancelled.  In any state, the continuations of \<^verbatim>\<open>startSession\<close> clear \<open>lockRef\<close> whenever
  they leave the \<^verbatim>\<open>try\<close> block: on a rejected start promise, on success, and after the
  close of a cancelled conversation, whether that close resolved or rejected.
\<close>

theorem start_failure_propagates:
  assumes "reachable s" and "idle s" and "conversationRef s = None \<or> \<not> isOpen"
  shows "start_result (run (acquire options isOpen (Rejected e) s) s) (ncalls s) = Some (Rejected e)
     \<and> conversationRef (run (acquire options isOpen (Rejected e) s) s) = conversationRef s
     \<and> lockRef (run (acquire options isOpen (Rejected e) s) s) = None
     \<and> lockRef (run (acquire options isOpen (Fulfilled conv) s) s) = None
     \<and> lockRef (run (cancel_during_connect options isOpen conv s) s) = None
     \<and> lockRef (resume_primary c (Rejected e) t) = None
     \<and> (\<not> shouldEndRef t \<longrightarrow> lockRef (resume_primary c (Fulfilled conv) t) = None)
     \<and> lockRef (resume_cancelled c u t) = None"
  by (simp add: acquire_rejected_state [OF assms] acquire_fulfilled_state [OF assms]
      cancel_during_connect_state [OF assms] resume_primary_def resume_cancelled_def
      finally_startSession_def settle_startSession_def applyControlled_eq Let_def
      split: settled.splits)

theorem start_failure_propagates_witness:
  "start_result
     (run (acquire None False (Rejected (Error ''network down'' None)) useConversation_test)
        useConversation_test) 0
     = Some (Rejected (Error ''network down'' None))
   \<and> lockRef
     (run (acquire None False (Rejected (Error ''network down'' None)) useConversation_test)
        useConversation_test) = None"
  using start_failure_propagates [OF reachable_test idle_test, of False None "Error ''network down'' None"]
  by (simp add: test_fields)

section \<open>A new session after a cancellation\<close>

text \<open>
  Claim C8.  After the cancellation scenario the flag \<open>shouldEndRef\<close> is set; a further
  \<^verbatim>\<open>startSession()\<close> resets it in its synchronous start, issues a second start request
  (two \<open>StartSession\<close> calls and two start promises over the whole scenario) and, when that
  request resolves to \<open>conv'\<close>, is fulfilled with the identifier of \<open>conv'\<close>, which is
  installed in the slot.
\<close>

theorem fresh_start_after_cancellation:
  assumes r: "reachable s" and i: "idle s" and o: "conversationRef s = None \<or> \<not> isOpen"
  shows "let s1 = run (cancel_during_connect options isOpen conv s) s;
             s2 = step (CallStartSession options' isOpen') s1;
             s3 = run (acquire options' isOpen' (Fulfilled conv') s1) s1
         in shouldEndRef s1
            \<and> \<not> shouldEndRef s2
            \<and> start_result s3 (Suc (Suc (ncalls s))) = Some (Fulfilled (getId conv'))
            \<and> conversationRef s3 = Some conv'
            \<and> lockRef s3 = None
            \<and> length (filter is_StartSession (drop (length (calls s)) (calls s3))) = 2
            \<and> started s3 = Suc (Suc (started s))"
proof -
  define s1 where "s1 = run (cancel_during_connect options isOpen conv s) s"
  note st = cancel_during_connect_state [OF r i o, of options conv, folded s1_def]
  have r1: "reachable s1" unfolding s1_def by (rule reachable_run [OF r])
  have c1: "conversationRef s1 = None" and l1: "lockRef s1 = None"
    and e1: "shouldEndRef s1" and n1: "ncalls s1 = Suc (Suc (ncalls s))"
    and p1: "started s1 = Suc (started s)"
    and k1: "calls s1 = calls s @ [StartSession (resolvedOptions (defaultOptions s) options),
         EndSession conv, EndSession conv]"
    by (simp_all add: st)
  have j1: "jobs s1 = []" using i by (simp add: st idle_def)
  have i1: "idle s1" using l1 j1 by (simp add: idle_def)
  have o1: "conversationRef s1 = None \<or> \<not> isOpen'" using c1 by simp
  have a: "\<not> shouldEndRef (step (CallStartSession options' isOpen') s1)"
    using startSession_resets_flag [OF l1 o1] by simp
  note st3 = acquire_fulfilled_state [OF r1 i1 o1, of options' conv']
  have b: "start_result (run (acquire options' isOpen' (Fulfilled conv') s1) s1) (Suc (Suc (ncalls s)))
      = Some (Fulfilled (getId conv'))"
    by (simp add: st3 n1)
  have c: "conversationRef (run (acquire options' isOpen' (Fulfilled conv') s1) s1) = Some conv'"
    "lockRef (run (acquire options' isOpen' (Fulfilled conv') s1) s1) = None"
    "started (run (acquire options' isOpen' (Fulfilled conv') s1) s1) = Suc (Suc (started s))"
    by (simp_all add: st3 p1)
  have d: "length (filter is_StartSession (drop (length (calls s))
      (calls (run (acquire options' isOpen' (Fulfilled conv') s1) s1)))) = 2"
    by (simp add: st3 k1)
  from e1 a b c d show ?thesis
    unfolding s1_def [symmetric] Let_def by blast
qed

theorem fresh_start_after_cancellation_witness:
  "start_result
     (run (acquire None False (Fulfilled (Conversation ''second-id''))
             (run (cancel_during_connect None False (Conversation ''first-id'') useConversation_test)
                useConversation_test))
        (run (cancel_during_connect None False (Conversation ''first-id'') useConversation_test)
           useConversation_test)) 2
     = Some (Fulfilled ''second-id'')"
  using fresh_start_after_cancellation [OF reachable_test idle_test,
      of False None "Conversation ''first-id''" None False "Conversation ''second-id''"]
  by (simp add: test_fields Let_def numeral_2_eq_2)

section \<open>Operations without a connection\<close>

text \<open>
  Claim C9 as stated fails: with no conversation in the slot, \<^verbatim>\<open>sendUserMessage\<close> of the
  conversation composable returns normally and does nothing.
\<close>

theorem send_without_handle_counterexample:
  "sendUserMessage ''hello'' useConversation_test = Inr useConversation_test"
  by (simp add: sendUserMessage_def test_fields)

text \<open>
  Claim C9, amended.  With no connection, \<^verbatim>\<open>sendAudio\<close> and \<^verbatim>\<open>commit\<close> of the Scribe
  composable throw the error "Not connected to Scribe".  With no conversation in the
  slot, the sending operations of the conversation composable and \<^verbatim>\<open>setVolume\<close> return
  normally, call nothing and change nothing, and the getters answer \<^verbatim>\<open>undefined\<close> or 0.
\<close>

theorem operations_without_handle:
  assumes "conversationRef s = None" and "connectionRef sc = None"
  shows "sendAudio audioBase64 options sc = Inl (Error ''Not connected to Scribe'' None)
     \<and> commit sc = Inl (Error ''Not connected to Scribe'' None)
     \<and> sendUserMessage text s = Inr s
     \<and> sendContextualUpdate text s = Inr s
     \<and> sendFeedback like s = Inr s
     \<and> sendUserActivity s = Inr s
     \<and> sendMCPToolApprovalResult toolCallId isApproved s = Inr s
     \<and> setVolume vol s = Inr s
     \<and> getId_slot s = Inr None
     \<and> getInputVolume x s = Inr 0
     \<and> getOutputVolume y s = Inr 0
     \<and> getInputByteFrequencyData a s = Inr None
     \<and> getOutputByteFrequencyData b s = Inr None"
  using assms
  by (simp add: sendAudio_def commit_def sendUserMessage_def sendContextualUpdate_def
      sendFeedback_def sendUserActivity_def sendMCPToolApprovalResult_def setVolume_def
      getId_slot_def getInputVolume_def getOutputVolume_def getInputByteFrequencyData_def
      getOutputByteFrequencyData_def)

theorem operations_without_handle_witness:
  "sendAudio ''AAAA'' None \<lparr>connectionRef = None, sent = []\<rparr>
     = Inl (Error ''Not connected to Scribe'' None)
   \<and> sendUserMessage ''hello'' useConversation_test = Inr useConversation_test
   \<and> getInputVolume 1 useConversation_test = Inr 0"
  using operations_without_handle [of useConversation_test "\<lparr>connectionRef = None, sent = []\<rparr>"
      "''AAAA''" None "''hello''" _ _ _ _ 1]
  by (simp add: test_fields)

end
